theory Spec2Isabelle
  imports Complex_Main "HOL-Library.Word"
begin

section \<open>Parallax renderer: data model\<close>

text \<open>
  The embedding follows \<^verbatim>\<open>src/parallax_renderer.py\<close> (class \<^verbatim>\<open>ParallaxRenderer\<close>).

  \<^item> A numpy \<^verbatim>\<open>uint8\<close> channel is an \<open>8 word\<close>; a colour image (shape \<open>(h, w, c)\<close>) is a list
    of rows, each a list of pixels, each a list of channels; a depth map (shape \<open>(h, w)\<close>)
    is a list of rows of single values.
  \<^item> Python \<^verbatim>\<open>int\<close> is \<open>int\<close>.
  \<^item> A Python \<^verbatim>\<open>float\<close> and a numpy \<^verbatim>\<open>float64\<close> or \<^verbatim>\<open>float32\<close> value is a \<open>real\<close>, and every
    floating-point operation of the source rounds its exact result to the format of the
    operation (\<open>f64\<close>, \<open>f32\<close>: round to nearest, ties to even). The exponent range is not
    bounded: overflow to infinity, underflow to subnormal numbers and NaN are outside
    the model.
  \<^item> Exceptions are values of the type \<open>error\<close>; a function that can raise returns
    \<open>error + 'a\<close>.
  \<^item> The OpenCV primitives \<^verbatim>\<open>cv2.resize\<close> and \<^verbatim>\<open>cv2.GaussianBlur\<close> and numpy's \<^verbatim>\<open>np.sin\<close> and
    \<^verbatim>\<open>np.cos\<close> are library code outside the repository; they are parameters of the
    functions that call them, and so is the one point where numpy's result type depends
    on its version.
\<close>

type_synonym u8 = "8 word"
type_synonym pixel = "u8 list"
type_synonym image = "pixel list list"
type_synonym depthmap = "u8 list list"

datatype error = ValueError | ZeroDivisionError | IndexError | Cv2Error

datatype ndarray = Gray depthmap | Color image

record ParallaxRenderer =
  width :: int
  height :: int
  fps :: int

section \<open>Floating-point arithmetic\<close>

text \<open>Rounding of a real to the nearest integer, a tie going to the even neighbour.\<close>

definition round_even :: "real \<Rightarrow> int" where
  "round_even x =
     (let f = \<lfloor>x\<rfloor>; d = x - real_of_int f
      in if d < 1 / 2 then f else if 1 / 2 < d then f + 1 else if even f then f else f + 1)"

text \<open>
  Rounding to a binary floating-point format with a significand of \<open>p\<close> bits (IEEE 754
  round-to-nearest-even): a number \<open>x\<close> with \<open>2\<^sup>k \<le> |x| < 2\<^sup>k\<^sup>+\<^sup>1\<close> is rounded to the
  nearest multiple of \<open>2\<^sup>k\<^sup>-\<^sup>p\<^sup>+\<^sup>1\<close>.
\<close>

definition fl :: "nat \<Rightarrow> real \<Rightarrow> real" where
  "fl p x =
     (if x = 0 then 0
      else let e = \<lfloor>log 2 \<bar>x\<bar>\<rfloor> - int p + 1
           in real_of_int (round_even (x / 2 powi e)) * 2 powi e)"

text \<open>\<^verbatim>\<open>float64\<close> (and Python's \<^verbatim>\<open>float\<close>) has 53 significant bits, \<^verbatim>\<open>float32\<close> has 24.\<close>

definition f64 :: "real \<Rightarrow> real" where
  "f64 x = fl 53 x"

definition f32 :: "real \<Rightarrow> real" where
  "f32 x = fl 24 x"

text \<open>The numbers of a format: an integer of fewer than \<open>p\<close> bits times a power of two.\<close>

definition representable :: "nat \<Rightarrow> real \<Rightarrow> bool" where
  "representable p x = (\<exists>m j. x = real_of_int m * 2 powi j \<and> \<bar>m\<bar> < 2 ^ p)"

text \<open>
  Python's true division \<^verbatim>\<open>a / b\<close> of two integers: \<^verbatim>\<open>ZeroDivisionError\<close> for a zero divisor,
  otherwise the quotient rounded to a \<^verbatim>\<open>float\<close>.
\<close>

definition py_truediv :: "int \<Rightarrow> int \<Rightarrow> error + real" where
  "py_truediv a b =
     (if b = 0 then Inl ZeroDivisionError else Inr (f64 (real_of_int a / real_of_int b)))"

text \<open>Python's \<^verbatim>\<open>int(x)\<close> on a float and numpy's float-to-integer cast: truncation towards zero.\<close>

definition py_int :: "real \<Rightarrow> int" where
  "py_int x = (if 0 \<le> x then \<lfloor>x\<rfloor> else \<lceil>x\<rceil>)"

text \<open>\<^verbatim>\<open>np.clip(a, lo, hi)\<close> is \<^verbatim>\<open>minimum(maximum(a, lo), hi)\<close>.\<close>

definition np_clip :: "'a::linorder \<Rightarrow> 'a \<Rightarrow> 'a \<Rightarrow> 'a" where
  "np_clip a lo hi = min (max a lo) hi"

text \<open>Array shapes: number of rows, and number of columns (read off the first row).\<close>

definition nrows :: "'a list list \<Rightarrow> nat" where
  "nrows a = length a"

definition ncols :: "'a list list \<Rightarrow> nat" where
  "ncols a = (case a of [] \<Rightarrow> 0 | r # _ \<Rightarrow> length r)"

text \<open>A rectangular \<open>h \<times> w\<close> array, as every numpy array is.\<close>

definition rect :: "nat \<Rightarrow> nat \<Rightarrow> 'a list list \<Rightarrow> bool" where
  "rect h w a = (length a = h \<and> list_all (\<lambda>r. length r = w) a)"

section \<open>Frame count, progress and camera path\<close>

text \<open>Line 35: \<^verbatim>\<open>total_frames = int(duration * self.fps)\<close>.\<close>

definition total_frames :: "ParallaxRenderer \<Rightarrow> real \<Rightarrow> int" where
  "total_frames self duration = py_int (f64 (duration * real_of_int (fps self)))"

text \<open>Line 55: \<^verbatim>\<open>progress = frame_idx / (total_frames - 1) if total_frames > 1 else 0\<close>.\<close>

definition frame_progress :: "int \<Rightarrow> int \<Rightarrow> error + real" where
  "frame_progress n_frames frame_idx =
     (if n_frames > 1 then py_truediv frame_idx (n_frames - 1) else Inr 0)"

text \<open>
  What the renderer uses of numpy beyond elementwise arithmetic.

  \<^item> \<^verbatim>\<open>np.sin\<close> and \<^verbatim>\<open>np.cos\<close> on a \<^verbatim>\<open>float64\<close>.
  \<^item> \<open>scalar_bits\<close>: the significand width of the format in which a \<^verbatim>\<open>float32\<close> array and a
    floating-point scalar are multiplied (lines 155-156). A Python \<^verbatim>\<open>float\<close> is converted to
    \<^verbatim>\<open>float32\<close> and the product is \<^verbatim>\<open>float32\<close> (24 bits). For a \<^verbatim>\<open>np.float64\<close> scalar, which is what
    \<^verbatim>\<open>camera_x\<close> and \<^verbatim>\<open>camera_y\<close> are, numpy 1 does the same, while numpy 2 converts the array
    and the product is \<^verbatim>\<open>float64\<close> (53 bits). The repository does not fix the version.
\<close>

record numpy =
  np_sin :: "real \<Rightarrow> real"
  np_cos :: "real \<Rightarrow> real"
  scalar_bits :: nat

text \<open>
  What numpy guarantees: on the angles of one turn, \<^verbatim>\<open>np.sin\<close> and \<^verbatim>\<open>np.cos\<close> are within a few
  units in the last place of the sine and the cosine; the products are \<^verbatim>\<open>float32\<close> or
  \<^verbatim>\<open>float64\<close>.
\<close>

definition numpy_contract :: "numpy \<Rightarrow> bool" where
  "numpy_contract m =
     ((\<forall>a. 0 \<le> a \<and> a \<le> 7 \<longrightarrow> \<bar>np_sin m a - sin a\<bar> \<le> 1 / 2 ^ 50) \<and>
      (\<forall>a. 0 \<le> a \<and> a \<le> 7 \<longrightarrow> \<bar>np_cos m a - cos a\<bar> \<le> 1 / 2 ^ 50) \<and>
      (scalar_bits m = 24 \<or> scalar_bits m = 53))"

text \<open>\<^verbatim>\<open>np.pi\<close> is the \<^verbatim>\<open>float64\<close> nearest to \<open>\<pi>\<close>.\<close>

definition np_pi :: real where
  "np_pi = f64 pi"

text \<open>Lines 58-60: the circular camera movement pattern.\<close>

definition camera_offset :: "numpy \<Rightarrow> real \<Rightarrow> real \<Rightarrow> real \<Rightarrow> real \<times> real" where
  "camera_offset m progress movement_range camera_movement =
     (let angle = f64 (f64 (progress * 2) * np_pi);
          camera_x = f64 (f64 (np_sin m angle * movement_range) * camera_movement);
          camera_y = f64 (f64 (f64 (np_cos m angle * movement_range) * camera_movement) * 0.5)
      in (camera_x, camera_y))"

text \<open>
  The camera path as the specification words it (section 4.2), in exact arithmetic:
  \<open>x = sin (progress \<times> 2\<pi>) \<times> movementRange \<times> cameraMovement\<close> and
  \<open>y = cos (progress \<times> 2\<pi>) \<times> movementRange \<times> cameraMovement \<times> 0.5\<close>.
\<close>

definition spec_offsetAt :: "real \<Rightarrow> real \<Rightarrow> real \<Rightarrow> real \<times> real" where
  "spec_offsetAt progress movementRange cameraMovement =
     (sin (progress * 2 * pi) * movementRange * cameraMovement,
      cos (progress * 2 * pi) * movementRange * cameraMovement * 0.5)"

section \<open>Aspect-fit resampler\<close>

text \<open>
  Python slicing \<^verbatim>\<open>xs[a:b]\<close> (step 1): an index is first normalised against the length,
  a negative one counting from the end, and the slice is empty when the normalised stop
  is not after the start.
\<close>

definition slice_index :: "nat \<Rightarrow> int \<Rightarrow> nat" where
  "slice_index n i = nat (if i < 0 then max 0 (i + int n) else min i (int n))"

definition py_slice :: "'a list \<Rightarrow> int \<Rightarrow> int \<Rightarrow> 'a list" where
  "py_slice xs a b =
     (let a' = slice_index (length xs) a; b' = slice_index (length xs) b
      in take (b' - a') (drop a' xs))"

text \<open>\<^verbatim>\<open>arr[y0:y1, x0:x1]\<close> on a two-dimensional array.\<close>

definition slice2 :: "'a list list \<Rightarrow> int \<Rightarrow> int \<Rightarrow> int \<Rightarrow> int \<Rightarrow> 'a list list" where
  "slice2 arr y0 y1 x0 x1 = map (\<lambda>r. py_slice r x0 x1) (py_slice arr y0 y1)"

text \<open>
  \<^verbatim>\<open>arr[y0:y1, x0:x1] = src\<close>. numpy raises \<^verbatim>\<open>ValueError\<close> when \<open>src\<close> does not fit the
  selected region. The model asks for the same shape; numpy would also accept a source
  that broadcasts to it, so where the model succeeds numpy performs the same assignment.
\<close>

definition assign_slice2 ::
  "'a list list \<Rightarrow> int \<Rightarrow> int \<Rightarrow> int \<Rightarrow> int \<Rightarrow> 'a list list \<Rightarrow> error + 'a list list" where
  "assign_slice2 arr y0 y1 x0 x1 src =
     (let ya = slice_index (nrows arr) y0; yb = slice_index (nrows arr) y1;
          xa = slice_index (ncols arr) x0; xb = slice_index (ncols arr) x1;
          rh = yb - ya; rw = xb - xa
      in if rect rh rw src
         then Inr (take ya arr
                   @ map (\<lambda>(row, srow). take xa row @ srow @ drop (xa + rw) row)
                         (zip (take rh (drop ya arr)) src)
                   @ drop (ya + rh) arr)
         else Inl ValueError)"

text \<open>
  The OpenCV functions used by the renderer. \<^verbatim>\<open>cv2.resize(img, (new_w, new_h), ...)\<close> is
  called on a two-dimensional array (the depth map) and on a three-dimensional one (the
  colour image); \<^verbatim>\<open>cv2.GaussianBlur(image, (51, 51), 20)\<close> on the colour image.
\<close>

record cv2 =
  resize_gray :: "depthmap \<Rightarrow> int \<Rightarrow> int \<Rightarrow> depthmap"
  resize_color :: "image \<Rightarrow> int \<Rightarrow> int \<Rightarrow> image"
  GaussianBlur :: "image \<Rightarrow> image"

text \<open>
  What OpenCV guarantees: a resize to a non-empty size \<open>(new_w, new_h)\<close> returns an array
  of \<open>new_h\<close> rows and \<open>new_w\<close> columns, and a blur returns an array of the shape of its
  input.
\<close>

definition cv2_contract :: "cv2 \<Rightarrow> bool" where
  "cv2_contract lib =
     ((\<forall>g nw nh. 0 < nw \<and> 0 < nh \<longrightarrow> rect (nat nh) (nat nw) (resize_gray lib g nw nh)) \<and>
      (\<forall>c nw nh. 0 < nw \<and> 0 < nh \<longrightarrow> rect (nat nh) (nat nw) (resize_color lib c nw nh)) \<and>
      (\<forall>c h w. rect h w c \<longrightarrow> rect h w (GaussianBlur lib c)))"

text \<open>Number of channels of a colour image, \<^verbatim>\<open>img.shape[2]\<close>.\<close>

definition nchannels :: "image \<Rightarrow> nat" where
  "nchannels img = (case img of (p # _) # _ \<Rightarrow> length p | _ \<Rightarrow> 0)"

text \<open>
  Lines 103-114 and 116-127 of \<^verbatim>\<open>_resize_with_aspect_ratio\<close>: the two branches differ only
  in the zero the result is filled with (\<open>zero\<close>), so they share this function.
  \<^verbatim>\<open>np.zeros\<close> raises \<^verbatim>\<open>ValueError\<close> on a negative dimension.
\<close>

definition center_crop_pad ::
  "'a \<Rightarrow> 'a list list \<Rightarrow> int \<Rightarrow> int \<Rightarrow> int \<Rightarrow> int \<Rightarrow> int \<Rightarrow> int \<Rightarrow> error + 'a list list" where
  "center_crop_pad zero resized new_w new_h target_width target_height start_x start_y =
     (if target_height < 0 \<or> target_width < 0 then Inl ValueError
      else
        let result = replicate (nat target_height) (replicate (nat target_width) zero);
            end_x = min new_w (start_x + target_width);
            end_y = min new_h (start_y + target_height);
            crop_w = end_x - start_x;
            crop_h = end_y - start_y;
            result_start_x = (target_width - crop_w) div 2;
            result_start_y = (target_height - crop_h) div 2
        in assign_slice2 result result_start_y (result_start_y + crop_h)
             result_start_x (result_start_x + crop_w)
             (slice2 resized start_y end_y start_x end_x))"

text \<open>
  \<^verbatim>\<open>_resize_with_aspect_ratio\<close> (lines 81-129). \<^verbatim>\<open>target_width / w\<close> raises
  \<^verbatim>\<open>ZeroDivisionError\<close> on an empty source, and \<^verbatim>\<open>cv2.resize\<close> rejects an empty size.

  Lines 89-90: the two quotients, the two products and \<^verbatim>\<open>int\<close> work on \<^verbatim>\<open>float\<close> values.
\<close>

definition scaled_size :: "nat \<Rightarrow> nat \<Rightarrow> int \<Rightarrow> int \<Rightarrow> int \<times> int" where
  "scaled_size h w target_width target_height =
     (let scale = max (f64 (real_of_int target_width / real w))
                      (f64 (real_of_int target_height / real h))
      in (py_int (f64 (real w * scale)), py_int (f64 (real h * scale))))"

definition resize_with_aspect_ratio :: "cv2 \<Rightarrow> ndarray \<Rightarrow> int \<Rightarrow> int \<Rightarrow> error + ndarray" where
  "resize_with_aspect_ratio lib img target_width target_height =
     (let (h, w) = (case img of Gray g \<Rightarrow> (nrows g, ncols g) | Color c \<Rightarrow> (nrows c, ncols c))
      in if w = 0 \<or> h = 0 then Inl ZeroDivisionError
         else
           let (new_w, new_h) = scaled_size h w target_width target_height
           in if new_w \<le> 0 \<or> new_h \<le> 0 then Inl Cv2Error
              else
                let start_x = max 0 ((new_w - target_width) div 2);
                    start_y = max 0 ((new_h - target_height) div 2)
                in (case img of
                      Gray g \<Rightarrow>
                        map_sum id Gray
                          (center_crop_pad 0 (resize_gray lib g new_w new_h) new_w new_h
                             target_width target_height start_x start_y)
                    | Color c \<Rightarrow>
                        map_sum id Color
                          (center_crop_pad (replicate (nchannels c) 0)
                             (resize_color lib c new_w new_h) new_w new_h
                             target_width target_height start_x start_y)))"

text \<open>Shape \<open>(rows, columns)\<close> of either kind of array.\<close>

definition shape2 :: "ndarray \<Rightarrow> nat \<times> nat" where
  "shape2 a = (case a of Gray g \<Rightarrow> (nrows g, ncols g) | Color c \<Rightarrow> (nrows c, ncols c))"

section \<open>Bilinear resampler\<close>

text \<open>
  numpy integer indexing \<^verbatim>\<open>img[y, x]\<close>: a negative index counts from the end, an index out
  of range raises \<^verbatim>\<open>IndexError\<close>.
\<close>

definition img_at :: "image \<Rightarrow> int \<Rightarrow> int \<Rightarrow> error + pixel" where
  "img_at img y x =
     (let h = int (nrows img); w = int (ncols img);
          j = (if y < 0 then y + h else y);
          i = (if x < 0 then x + w else x)
      in if 0 \<le> j \<and> j < h \<and> 0 \<le> i \<and> i < w then Inr (img ! nat j ! nat i)
         else Inl IndexError)"

text \<open>
  Lines 183-192: the four corner indices \<open>(x0, x1, y0, y1)\<close> of one sample position, after
  clamping. (\<^verbatim>\<open>astype(np.int32)\<close> is the identity on the values that occur: the renderer
  clips the coordinates to the image before it samples.)
\<close>

definition corner_indices :: "image \<Rightarrow> real \<Rightarrow> real \<Rightarrow> int \<times> int \<times> int \<times> int" where
  "corner_indices img x y =
     (let h = int (nrows img); w = int (ncols img);
          x0 = \<lfloor>x\<rfloor>; x1 = x0 + 1;
          y0 = \<lfloor>y\<rfloor>; y1 = y0 + 1;
          x0 = np_clip x0 0 (w - 1);
          x1 = np_clip x1 0 (w - 1);
          y0 = np_clip y0 0 (h - 1);
          y1 = np_clip y1 0 (h - 1)
      in (x0, x1, y0, y1))"

text \<open>
  Lines 203-206: the blend of one channel of the four corners, in \<^verbatim>\<open>float64\<close>. Every
  subtraction, product and sum of the numpy expression is one rounded operation, in the
  order in which Python evaluates it.
\<close>

definition blend :: "real \<Rightarrow> real \<Rightarrow> real \<Rightarrow> real \<Rightarrow> real \<Rightarrow> real \<Rightarrow> real" where
  "blend p00 p01 p10 p11 wx wy =
     (let t00 = f64 (f64 (p00 * f64 (1 - wx)) * f64 (1 - wy));
          t01 = f64 (f64 (p01 * wx) * f64 (1 - wy));
          t10 = f64 (f64 (p10 * f64 (1 - wx)) * wy);
          t11 = f64 (f64 (p11 * wx) * wy)
      in f64 (f64 (f64 (t00 + t01) + t10) + t11))"

text \<open>
  The same blend in exact arithmetic: the combination of the four corner values with the
  weights \<open>(1 - wx)(1 - wy)\<close>, \<open>wx (1 - wy)\<close>, \<open>(1 - wx) wy\<close> and \<open>wx wy\<close> of the specification
  (section 4.4).
\<close>

definition convex_blend :: "real \<Rightarrow> real \<Rightarrow> real \<Rightarrow> real \<Rightarrow> real \<Rightarrow> real \<Rightarrow> real" where
  "convex_blend p00 p01 p10 p11 wx wy =
     p00 * (1 - wx) * (1 - wy) + p01 * wx * (1 - wy) + p10 * (1 - wx) * wy + p11 * wx * wy"

text \<open>
  Line 208, \<^verbatim>\<open>result.astype(img.dtype)\<close> with dtype \<^verbatim>\<open>uint8\<close>: the float is truncated towards
  zero and the integer is reduced modulo 256.
\<close>

definition astype_uint8 :: "real \<Rightarrow> u8" where
  "astype_uint8 v = word_of_int (py_int v)"

definition u8_real :: "u8 \<Rightarrow> real" where
  "u8_real c = real (unat c)"

text \<open>The body of \<^verbatim>\<open>_bilinear_interpolate\<close> at one sample position \<open>(x, y)\<close>.\<close>

definition bilinear_px :: "image \<Rightarrow> real \<Rightarrow> real \<Rightarrow> error + pixel" where
  "bilinear_px img x y =
     (let (x0, x1, y0, y1) = corner_indices img x y;
          wx = f64 (x - real_of_int x0);
          wy = f64 (y - real_of_int y0)
      in case img_at img y0 x0 of Inl e \<Rightarrow> Inl e | Inr p00 \<Rightarrow>
         (case img_at img y0 x1 of Inl e \<Rightarrow> Inl e | Inr p01 \<Rightarrow>
         (case img_at img y1 x0 of Inl e \<Rightarrow> Inl e | Inr p10 \<Rightarrow>
         (case img_at img y1 x1 of Inl e \<Rightarrow> Inl e | Inr p11 \<Rightarrow>
            Inr (map (\<lambda>(a, b, c, d).
                        astype_uint8 (blend (u8_real a) (u8_real b) (u8_real c) (u8_real d) wx wy))
                     (zip p00 (zip p01 (zip p10 p11))))))))"

text \<open>
  \<^verbatim>\<open>_bilinear_interpolate\<close> (lines 178-208) on coordinate arrays \<open>x\<close> and \<open>y\<close>; the
  vectorised numpy expression is the per-position body applied to every entry. Arrays
  of different shapes do not combine (\<^verbatim>\<open>ValueError\<close>; the renderer always passes two arrays
  of the shape of the depth map).
\<close>

definition bilinear_interpolate :: "image \<Rightarrow> real list list \<Rightarrow> real list list \<Rightarrow> error + image" where
  "bilinear_interpolate img x y =
     (if map length x \<noteq> map length y then Inl ValueError
      else
        let cells = map (\<lambda>(xr, yr). map (\<lambda>(xv, yv). bilinear_px img xv yv) (zip xr yr)) (zip x y)
        in if list_all (list_all (\<lambda>c. \<not> isl c)) cells then Inr (map (map projr) cells)
           else Inl IndexError)"

text \<open>
  A colour image of shape \<open>(h, w, c)\<close>: rectangular, every pixel with \<open>c\<close> channels.
\<close>

definition rect3 :: "nat \<Rightarrow> nat \<Rightarrow> nat \<Rightarrow> image \<Rightarrow> bool" where
  "rect3 h w c img = (rect h w img \<and> list_all (list_all (\<lambda>p. length p = c)) img)"

text \<open>
  The value of \<^verbatim>\<open>result\<close> (lines 203-206) at one sample position and channel \<open>k\<close>, before
  the cast of line 208, and the four corner channel values it is blended from.
\<close>

definition corner_values :: "image \<Rightarrow> real \<Rightarrow> real \<Rightarrow> nat \<Rightarrow> real list" where
  "corner_values img x y k =
     (let (x0, x1, y0, y1) = corner_indices img x y
      in [u8_real (img ! nat y0 ! nat x0 ! k), u8_real (img ! nat y0 ! nat x1 ! k),
          u8_real (img ! nat y1 ! nat x0 ! k), u8_real (img ! nat y1 ! nat x1 ! k)])"

definition blend_weights :: "image \<Rightarrow> real \<Rightarrow> real \<Rightarrow> real \<times> real" where
  "blend_weights img x y =
     (let (x0, x1, y0, y1) = corner_indices img x y
      in (f64 (x - real_of_int x0), f64 (y - real_of_int y0)))"

definition blend_at :: "image \<Rightarrow> real \<Rightarrow> real \<Rightarrow> nat \<Rightarrow> real" where
  "blend_at img x y k =
     (let (wx, wy) = blend_weights img x y;
          vs = corner_values img x y k
      in blend (vs ! 0) (vs ! 1) (vs ! 2) (vs ! 3) wx wy)"

section \<open>Displacement field and frame generation\<close>

text \<open>Line 145: \<^verbatim>\<open>depth_map.astype(np.float32) / 255.0\<close>.\<close>

definition depth_normalized :: "depthmap \<Rightarrow> real list list" where
  "depth_normalized depth_map = map (map (\<lambda>d. f32 (u8_real d / 255))) depth_map"

text \<open>
  Lines 155-156: \<^verbatim>\<open>(depth_normalized - 0.5) * offset * displacement_scale\<close>. The difference is
  \<^verbatim>\<open>float32\<close>; the two products are computed in the format of \<open>p\<close> bits (\<open>scalar_bits\<close>), to which
  the scalars are converted.
\<close>

definition displacement :: "nat \<Rightarrow> real list list \<Rightarrow> real \<Rightarrow> real \<Rightarrow> real list list" where
  "displacement p dn offset displacement_scale =
     map (map (\<lambda>d. fl p (fl p (f32 (d - 0.5) * fl p offset) * fl p displacement_scale))) dn"

text \<open>Lines 152-156: the displacement field \<open>(disp_x, disp_y)\<close> of a frame.\<close>

definition displacement_field ::
  "numpy \<Rightarrow> depthmap \<Rightarrow> real \<Rightarrow> real \<Rightarrow> real \<Rightarrow> real list list \<times> real list list" where
  "displacement_field m depth_map offset_x offset_y movement_strength =
     (let displacement_scale = f64 (movement_strength * 100);
          p = scalar_bits m;
          disp_x = displacement p (depth_normalized depth_map) offset_x displacement_scale;
          disp_y = displacement p (depth_normalized depth_map) offset_y displacement_scale
      in (disp_x, disp_y))"

text \<open>Line 148: \<^verbatim>\<open>y_coords, x_coords = np.mgrid[0:h, 0:w]\<close>.\<close>

definition y_coords :: "nat \<Rightarrow> nat \<Rightarrow> int list list" where
  "y_coords h w = map (\<lambda>i. replicate w (int i)) [0..<h]"

definition x_coords :: "nat \<Rightarrow> nat \<Rightarrow> int list list" where
  "x_coords h w = replicate h (map int [0..<w])"

text \<open>
  Elementwise sum of an integer grid and a \<^verbatim>\<open>float32\<close> array (lines 159-160); the sum is
  \<^verbatim>\<open>float64\<close>.
\<close>

definition add_grid :: "int list list \<Rightarrow> real list list \<Rightarrow> real list list" where
  "add_grid g d =
     map (\<lambda>(gr, dr). map (\<lambda>(c, v). f64 (real_of_int c + v)) (zip gr dr)) (zip g d)"

definition clip_array :: "real list list \<Rightarrow> real \<Rightarrow> real \<Rightarrow> real list list" where
  "clip_array a lo hi = map (map (\<lambda>v. np_clip v lo hi)) a"

text \<open>Lines 141-164: the clamped sample coordinates \<open>(new_x, new_y)\<close> of a frame.\<close>

definition sample_coords ::
  "numpy \<Rightarrow> depthmap \<Rightarrow> real \<Rightarrow> real \<Rightarrow> real \<Rightarrow> real list list \<times> real list list" where
  "sample_coords m depth_map offset_x offset_y movement_strength =
     (let h = nrows depth_map; w = ncols depth_map;
          (disp_x, disp_y) = displacement_field m depth_map offset_x offset_y movement_strength;
          new_x = add_grid (x_coords h w) disp_x;
          new_y = add_grid (y_coords h w) disp_y;
          new_x = clip_array new_x 0 (real_of_int (int w - 1));
          new_y = clip_array new_y 0 (real_of_int (int h - 1))
      in (new_x, new_y))"

text \<open>
  Lines 169-174, the hole filler: \<^verbatim>\<open>mask = np.all(result == 0, axis=2)\<close>, and where any
  pixel is masked, the masked pixels are replaced by those of the blurred image.
  Boolean-mask indexing raises \<^verbatim>\<open>IndexError\<close> when the mask does not have the shape of
  the array it indexes.
\<close>

definition hole_mask :: "image \<Rightarrow> bool list list" where
  "hole_mask result = map (map (list_all (\<lambda>c. c = 0))) result"

definition fill_holes :: "cv2 \<Rightarrow> image \<Rightarrow> image \<Rightarrow> error + image" where
  "fill_holes lib src_image result =
     (let mask = hole_mask result
      in if list_ex (list_ex id) mask
         then
           let background = GaussianBlur lib src_image
           in if map length background \<noteq> map length mask then Inl IndexError
              else Inr (map (\<lambda>(rrow, mrow, brow).
                               map (\<lambda>(r, m, b). if m then b else r) (zip rrow (zip mrow brow)))
                            (zip result (zip mask background)))
         else Inr result)"

text \<open>\<^verbatim>\<open>_generate_parallax_frame\<close> (lines 131-176).\<close>

definition generate_parallax_frame ::
  "cv2 \<Rightarrow> numpy \<Rightarrow> image \<Rightarrow> depthmap \<Rightarrow> real \<Rightarrow> real \<Rightarrow> real \<Rightarrow> error + image" where
  "generate_parallax_frame lib m src_image depth_map offset_x offset_y movement_strength =
     (let (new_x, new_y) = sample_coords m depth_map offset_x offset_y movement_strength
      in case bilinear_interpolate src_image new_x new_y of
           Inl e \<Rightarrow> Inl e
         | Inr result \<Rightarrow> fill_holes lib src_image result)"

section \<open>Frame sequence\<close>

text \<open>The body of the frame loop (lines 55-66) for one frame index.\<close>

definition render_frame ::
  "cv2 \<Rightarrow> numpy \<Rightarrow> image \<Rightarrow> depthmap \<Rightarrow> real \<Rightarrow> real \<Rightarrow> int \<Rightarrow> int \<Rightarrow> error + image" where
  "render_frame lib m image_resized depth_resized camera_movement movement_range n_frames
       frame_idx =
     (case frame_progress n_frames frame_idx of
        Inl e \<Rightarrow> Inl e
      | Inr progress \<Rightarrow>
          (let (camera_x, camera_y) = camera_offset m progress movement_range camera_movement
           in generate_parallax_frame lib m image_resized depth_resized camera_x camera_y
                camera_movement))"

text \<open>
  The loop \<^verbatim>\<open>for frame_idx in range(total_frames)\<close>: frames are written one after the other
  as \<^verbatim>\<open>frame_{frame_idx:06d}.png\<close>; an exception in a frame ends the loop.
\<close>

fun frame_loop :: "(int \<Rightarrow> error + image) \<Rightarrow> int list \<Rightarrow> error + (int \<times> image) list" where
  "frame_loop body [] = Inr []"
| "frame_loop body (frame_idx # rest) =
     (case body frame_idx of
        Inl e \<Rightarrow> Inl e
      | Inr frame \<Rightarrow>
          (case frame_loop body rest of
             Inl e \<Rightarrow> Inl e
           | Inr frames \<Rightarrow> Inr ((frame_idx, frame) # frames)))"

text \<open>
  \<^verbatim>\<open>create_parallax_animation\<close> (lines 22-79). The two \<^verbatim>\<open>cv2.imread\<close> results are the inputs
  (\<open>None\<close> when the file could not be read); the value is the sequence of numbered frames
  handed to the encoder.
\<close>

definition create_parallax_animation ::
  "cv2 \<Rightarrow> numpy \<Rightarrow> ParallaxRenderer \<Rightarrow> image option \<Rightarrow> depthmap option \<Rightarrow> real \<Rightarrow> real
     \<Rightarrow> real \<Rightarrow> error + (int \<times> image) list" where
  "create_parallax_animation lib m self src_image depth_map camera_movement movement_range
       duration =
     (let n_frames = total_frames self duration
      in case (src_image, depth_map) of
           (Some im, Some dm) \<Rightarrow>
             (case resize_with_aspect_ratio lib (Color im) (width self) (height self) of
                Inl e \<Rightarrow> Inl e
              | Inr image_resized \<Rightarrow>
                  (case resize_with_aspect_ratio lib (Gray dm) (width self) (height self) of
                     Inl e \<Rightarrow> Inl e
                   | Inr depth_resized \<Rightarrow>
                       (case (image_resized, depth_resized) of
                          (Color ir, Gray dr) \<Rightarrow>
                            frame_loop
                              (render_frame lib m ir dr camera_movement movement_range n_frames)
                              [0..n_frames - 1]
                        | _ \<Rightarrow> Inl ValueError)))
         | _ \<Rightarrow> Inl ValueError)"

section \<open>Reference instances of the library functions\<close>

text \<open>
  The properties below hold for every implementation of the OpenCV functions that meets
  \<open>cv2_contract\<close>. One such implementation, a nearest-neighbour resize and a blur of
  radius zero, shows that the contract can be met and serves to run the renderer on
  concrete inputs.
\<close>

definition nearest_resize :: "'a list list \<Rightarrow> int \<Rightarrow> int \<Rightarrow> 'a list list" where
  "nearest_resize a new_w new_h =
     map (\<lambda>i. map (\<lambda>j. a ! (i * nrows a div nat new_h) ! (j * ncols a div nat new_w))
                 [0..<nat new_w])
         [0..<nat new_h]"

definition reference_cv2 :: cv2 where
  "reference_cv2 =
     \<lparr>resize_gray = nearest_resize, resize_color = nearest_resize, GaussianBlur = (\<lambda>c. c)\<rparr>"

text \<open>
  Likewise for numpy: the sine and the cosine rounded to \<^verbatim>\<open>float64\<close>, and products in \<^verbatim>\<open>float32\<close>,
  meet \<open>numpy_contract\<close>.
\<close>

definition reference_numpy :: numpy where
  "reference_numpy =
     \<lparr>np_sin = (\<lambda>a. f64 (sin a)), np_cos = (\<lambda>a. f64 (cos a)), scalar_bits = 24\<rparr>"

section \<open>Auxiliary facts\<close>

subsection \<open>Floating-point rounding\<close>


lemma round_even_of_int [simp]: "round_even (real_of_int n) = n"
  by (simp add: round_even_def)

lemma round_even_err: "\<bar>real_of_int (round_even x) - x\<bar> \<le> 1 / 2"
  unfolding round_even_def Let_def by auto

lemma round_even_le: "x \<le> real_of_int n \<Longrightarrow> round_even x \<le> n"
proof -
  assume a: "x \<le> real_of_int n"
  have "\<lfloor>x\<rfloor> \<le> n" using a by (simp add: floor_le_iff)
  show ?thesis
  proof (cases "\<lfloor>x\<rfloor> = n")
    case True
    then have "x = real_of_int n" using a by linarith
    then show ?thesis by simp
  next
    case False
    then have "\<lfloor>x\<rfloor> + 1 \<le> n" using \<open>\<lfloor>x\<rfloor> \<le> n\<close> by linarith
    then show ?thesis unfolding round_even_def Let_def by auto
  qed
qed

lemma round_even_ge: "real_of_int n \<le> x \<Longrightarrow> n \<le> round_even x"
proof -
  assume a: "real_of_int n \<le> x"
  then have "n \<le> \<lfloor>x\<rfloor>" by (simp add: le_floor_iff)
  then show ?thesis unfolding round_even_def Let_def by auto
qed

lemma binade:
  assumes "x \<noteq> 0"
  shows "2 powi \<lfloor>log 2 \<bar>x\<bar>\<rfloor> \<le> \<bar>x\<bar> \<and> \<bar>x\<bar> < 2 powi (\<lfloor>log 2 \<bar>x\<bar>\<rfloor> + 1)"
proof -
  have pos: "0 < \<bar>x\<bar>" using assms by simp
  define k where "k = \<lfloor>log 2 \<bar>x\<bar>\<rfloor>"
  have "(2::real) powr (real_of_int k) \<le> \<bar>x\<bar> \<and> \<bar>x\<bar> < 2 powr (real_of_int k + 1)"
    using floor_log_eq_powr_iff [OF pos, of 2 k] by (simp add: k_def)
  moreover have "(2::real) powr (real_of_int k) = 2 powi k"
    by (simp add: powr_real_of_int')
  moreover have "(2::real) powr (real_of_int k + 1) = 2 powi (k + 1)"
    using powr_real_of_int' [of 2 "k + 1"] by simp
  ultimately show ?thesis by (simp add: k_def)
qed

lemma binade_unique:
  assumes "2 powi k \<le> \<bar>x\<bar>" "\<bar>x\<bar> < 2 powi (k + 1)"
  shows "\<lfloor>log 2 \<bar>x\<bar>\<rfloor> = k"
proof -
  have pos: "0 < \<bar>x\<bar>" using assms(1) by (smt (verit) zero_less_power_int)
  have "(2::real) powr (real_of_int k) = 2 powi k"
    by (simp add: powr_real_of_int')
  moreover have "(2::real) powr (real_of_int k + 1) = 2 powi (k + 1)"
    using powr_real_of_int' [of 2 "k + 1"] by simp
  ultimately have "(2::real) powr (real_of_int k) \<le> \<bar>x\<bar> \<and> \<bar>x\<bar> < 2 powr (real_of_int k + 1)"
    using assms by simp
  then show ?thesis
    using floor_log_eq_powr_iff [OF pos, of 2 k] by simp
qed

lemma fl_0 [simp]: "fl p 0 = 0"
  by (simp add: fl_def)

lemma fl_eval:
  assumes "2 powi k \<le> \<bar>x\<bar>" "\<bar>x\<bar> < 2 powi (k + 1)"
  shows "fl p x = real_of_int (round_even (x / 2 powi (k - int p + 1))) * 2 powi (k - int p + 1)"
proof -
  have "x \<noteq> 0" using assms(1) by (smt (verit) zero_less_power_int)
  then show ?thesis
    by (simp add: fl_def Let_def binade_unique [OF assms])
qed

lemma two_powi_pos [simp]: "0 < (2::real) powi k"
  by simp

lemma two_powi_add: "(2::real) powi (a + b) = 2 powi a * 2 powi b"
  by (simp add: power_int_add)

lemma two_powi_diff: "(2::real) powi (a - b) = 2 powi a / 2 powi b"
  by (simp add: power_int_diff)

lemma two_powi_nat: "0 \<le> k \<Longrightarrow> (2::real) powi k = real_of_int (2 ^ nat k)"
  by (simp add: power_int_def)

lemma two_powi_less_cancel: "(2::real) powi a < 2 powi b \<Longrightarrow> a < b"
  by (rule ccontr) (simp add: not_less power_int_increasing leD)

lemma fl_err: "\<bar>fl p x - x\<bar> \<le> \<bar>x\<bar> / 2 ^ p"
proof (cases "x = 0")
  case True
  then show ?thesis by simp
next
  case False
  define k where "k = \<lfloor>log 2 \<bar>x\<bar>\<rfloor>"
  define e where "e = k - int p + 1"
  define y where "y = x / 2 powi e"
  have b: "2 powi k \<le> \<bar>x\<bar>" using binade [OF False] by (simp add: k_def)
  have f: "fl p x = real_of_int (round_even y) * 2 powi e"
    using False by (simp add: fl_def Let_def k_def e_def y_def)
  have x: "x = y * 2 powi e" by (simp add: y_def)
  have "fl p x - x = real_of_int (round_even y) * 2 powi e - y * 2 powi e"
    using f x by simp
  then have "fl p x - x = (real_of_int (round_even y) - y) * 2 powi e"
    by (simp add: algebra_simps)
  then have "\<bar>fl p x - x\<bar> = \<bar>real_of_int (round_even y) - y\<bar> * 2 powi e"
    by (simp add: abs_mult)
  also have "\<dots> \<le> (1 / 2) * 2 powi e"
    by (intro mult_right_mono round_even_err) simp
  also have "(1 / 2) * (2::real) powi e = 2 powi k / 2 ^ p"
  proof -
    have "e = (k - int p) + 1" by (simp add: e_def)
    then have "(2::real) powi e = 2 powi (k - int p) * 2" by (simp add: two_powi_add)
    also have "(2::real) powi (k - int p) = 2 powi k / 2 powi (int p)" by (rule two_powi_diff)
    finally show ?thesis by simp
  qed
  also have "\<dots> \<le> \<bar>x\<bar> / 2 ^ p"
    using b by (simp add: divide_right_mono)
  finally show ?thesis .
qed

lemma representable_of_int: "\<bar>n\<bar> < 2 ^ p \<Longrightarrow> representable p (real_of_int n)"
  unfolding representable_def by (rule exI [of _ n], rule exI [of _ 0]) simp

lemma representable_multiple:
  assumes r: "representable p r" and b: "2 powi k \<le> \<bar>r\<bar>"
  shows "\<exists>n. r = real_of_int n * 2 powi (k - int p + 1)"
proof -
  obtain m j where mj: "r = real_of_int m * 2 powi j" "\<bar>m\<bar> < 2 ^ p"
    using r by (auto simp: representable_def)
  have "\<bar>r\<bar> = real_of_int \<bar>m\<bar> * 2 powi j"
    by (simp add: mj(1) abs_mult)
  also have "\<dots> < real_of_int (2 ^ p) * 2 powi j"
    using mj(2) by (intro mult_strict_right_mono) (simp_all del: of_int_power)
  also have "\<dots> = 2 powi (int p + j)"
    by (simp add: two_powi_add)
  finally have "(2::real) powi k < 2 powi (int p + j)" using b by simp
  then have "k < int p + j" by (rule two_powi_less_cancel)
  then have d: "0 \<le> j - (k - int p + 1)" by simp
  have "(2::real) powi j = 2 powi ((j - (k - int p + 1)) + (k - int p + 1))" by simp
  also have "\<dots> = 2 powi (j - (k - int p + 1)) * 2 powi (k - int p + 1)"
    by (rule two_powi_add)
  also have "(2::real) powi (j - (k - int p + 1)) = real_of_int (2 ^ nat (j - (k - int p + 1)))"
    using d by (rule two_powi_nat)
  finally have "r = real_of_int (m * 2 ^ nat (j - (k - int p + 1))) * 2 powi (k - int p + 1)"
    by (simp add: mj(1))
  then show ?thesis by blast
qed

lemma fl_representable:
  assumes "representable p x"
  shows "fl p x = x"
proof (cases "x = 0")
  case True
  then show ?thesis by simp
next
  case False
  define k where "k = \<lfloor>log 2 \<bar>x\<bar>\<rfloor>"
  have b: "2 powi k \<le> \<bar>x\<bar>" using binade [OF False] by (simp add: k_def)
  obtain n where n: "x = real_of_int n * 2 powi (k - int p + 1)"
    using representable_multiple [OF assms b] by blast
  then have q: "x / 2 powi (k - int p + 1) = real_of_int n" by simp
  have "fl p x = real_of_int (round_even (x / 2 powi (k - int p + 1))) * 2 powi (k - int p + 1)"
    using False by (simp add: fl_def Let_def k_def)
  also have "\<dots> = real_of_int n * 2 powi (k - int p + 1)"
    by (simp only: q round_even_of_int)
  finally show ?thesis using n by simp
qed

lemma fl_of_int: "\<bar>n\<bar> < 2 ^ p \<Longrightarrow> fl p (real_of_int n) = real_of_int n"
  by (rule fl_representable) (rule representable_of_int)

lemma fl_upper:
  assumes r: "representable p r" and x: "0 \<le> x" "x \<le> r"
  shows "fl p x \<le> r"
proof (cases "x = 0")
  case True
  then show ?thesis using x by simp
next
  case False
  define k where "k = \<lfloor>log 2 \<bar>x\<bar>\<rfloor>"
  define e where "e = k - int p + 1"
  define y where "y = x / 2 powi e"
  have ax: "\<bar>x\<bar> = x" using x by simp
  have b: "2 powi k \<le> x" "x < 2 powi (k + 1)"
    using binade [OF False] by (simp_all add: k_def ax)
  have f: "fl p x = real_of_int (round_even y) * 2 powi e"
    using False by (simp add: fl_def Let_def k_def e_def y_def)
  have "2 powi k \<le> \<bar>r\<bar>" using b(1) x by linarith
  then obtain n where n: "r = real_of_int n * 2 powi e"
    using representable_multiple [OF r] unfolding e_def by blast
  have "y \<le> real_of_int n"
    using x(2) n by (simp add: y_def pos_divide_le_eq)
  then have "round_even y \<le> n" by (rule round_even_le)
  then have "real_of_int (round_even y) * 2 powi e \<le> real_of_int n * 2 powi e"
    by (intro mult_right_mono) simp_all
  then show ?thesis using f n by simp
qed


lemma representable_0: "representable p 0"
  unfolding representable_def by (rule exI [of _ 0], rule exI [of _ 0]) simp

lemma representable_dyadic: "\<bar>m\<bar> < 2 ^ p \<Longrightarrow> representable p (real_of_int m / 2 ^ k)"
  unfolding representable_def
  by (rule exI [of _ m], rule exI [of _ "- int k"]) (simp add: power_int_minus field_simps)

lemma representable_pow2: "0 < p \<Longrightarrow> representable p (2 ^ n)"
  unfolding representable_def
  by (rule exI [of _ 1], rule exI [of _ "int n"]) (simp add: one_less_power)

lemma fl_dyadic: "\<bar>m\<bar> < 2 ^ p \<Longrightarrow> fl p (real_of_int m / 2 ^ k) = real_of_int m / 2 ^ k"
  by (rule fl_representable) (rule representable_dyadic)

lemma fl_nonneg:
  assumes "0 \<le> x"
  shows "0 \<le> fl p x"
proof (cases "x = 0")
  case True
  then show ?thesis by simp
next
  case False
  define e where "e = \<lfloor>log 2 \<bar>x\<bar>\<rfloor> - int p + 1"
  have f: "fl p x = real_of_int (round_even (x / 2 powi e)) * 2 powi e"
    using False by (simp add: fl_def Let_def e_def)
  have "real_of_int 0 \<le> x / 2 powi e" using assms by simp
  then have "0 \<le> round_even (x / 2 powi e)" by (rule round_even_ge)
  then show ?thesis unfolding f by simp
qed

lemma fl_abs_err: "\<bar>x\<bar> \<le> M \<Longrightarrow> \<bar>fl p x - x\<bar> \<le> M / 2 ^ p"
proof -
  assume "\<bar>x\<bar> \<le> M"
  then have "\<bar>x\<bar> / 2 ^ p \<le> M / 2 ^ p" by (simp add: divide_right_mono)
  with fl_err [of p x] show ?thesis by linarith
qed

lemma fl_zero_iff:
  assumes "0 < p"
  shows "fl p x = 0 \<longleftrightarrow> x = 0"
proof
  assume z: "fl p x = 0"
  show "x = 0"
  proof (rule ccontr)
    assume nz: "x \<noteq> 0"
    have "(2::real) ^ 1 \<le> 2 ^ p" using assms by (intro power_increasing) simp_all
    then have "\<bar>x\<bar> / 2 ^ p \<le> \<bar>x\<bar> / 2" by (intro divide_left_mono) simp_all
    moreover have "\<bar>x\<bar> \<le> \<bar>x\<bar> / 2 ^ p" using fl_err [of p x] z by simp
    ultimately have "\<bar>x\<bar> \<le> \<bar>x\<bar> / 2" by linarith
    then have "\<bar>x\<bar> \<le> 0" by linarith
    then show False using nz by simp
  qed
qed simp

lemma fl_abs_le: "\<bar>fl p x\<bar> \<le> \<bar>x\<bar> * (1 + 1 / 2 ^ p)"
proof -
  have "\<bar>fl p x\<bar> \<le> \<bar>x\<bar> + \<bar>fl p x - x\<bar>" by linarith
  also have "\<dots> \<le> \<bar>x\<bar> + \<bar>x\<bar> / 2 ^ p" using fl_err [of p x] by simp
  finally show ?thesis by (simp add: algebra_simps)
qed

lemma fl_abs_ge: "\<bar>x\<bar> * (1 - 1 / 2 ^ p) \<le> \<bar>fl p x\<bar>"
proof -
  have "\<bar>x\<bar> - \<bar>fl p x - x\<bar> \<le> \<bar>fl p x\<bar>" by linarith
  moreover have "\<bar>x\<bar> - \<bar>x\<bar> / 2 ^ p \<le> \<bar>x\<bar> - \<bar>fl p x - x\<bar>" using fl_err [of p x] by simp
  ultimately show ?thesis by (simp add: algebra_simps)
qed

lemma fl_1 [simp]: "0 < p \<Longrightarrow> fl p 1 = 1"
  using fl_of_int [of 1 p] by (simp add: one_less_power)

lemma f64_0 [simp]: "f64 0 = 0"
  by (simp add: f64_def)

lemma f64_1 [simp]: "f64 1 = 1"
  by (simp add: f64_def)

lemma f32_0 [simp]: "f32 0 = 0"
  by (simp add: f32_def)

lemma f32_1 [simp]: "f32 1 = 1"
  by (simp add: f32_def)

lemma f64_of_int: "\<bar>n\<bar> < 2 ^ 53 \<Longrightarrow> f64 (real_of_int n) = real_of_int n"
  unfolding f64_def by (rule fl_of_int)

lemma f64_of_nat: "n < 2 ^ 53 \<Longrightarrow> f64 (real n) = real n"
  using f64_of_int [of "int n"] by simp

lemma f64_dyadic: "\<bar>m\<bar> < 2 ^ 53 \<Longrightarrow> f64 (real_of_int m / 2 ^ k) = real_of_int m / 2 ^ k"
  unfolding f64_def by (rule fl_dyadic)

lemma f32_dyadic: "\<bar>m\<bar> < 2 ^ 24 \<Longrightarrow> f32 (real_of_int m / 2 ^ k) = real_of_int m / 2 ^ k"
  unfolding f32_def by (rule fl_dyadic)

lemma f64_nonneg: "0 \<le> x \<Longrightarrow> 0 \<le> f64 x"
  unfolding f64_def by (rule fl_nonneg)

lemma f64_err: "\<bar>x\<bar> \<le> M \<Longrightarrow> \<bar>f64 x - x\<bar> \<le> M / 2 ^ 53"
  unfolding f64_def by (rule fl_abs_err)

lemma f64_le_nat:
  assumes "n \<le> 2 ^ 53" "0 \<le> x" "x \<le> real n"
  shows "f64 x \<le> real n"
proof -
  have "representable 53 (real n)"
  proof (cases "n = 2 ^ 53")
    case True
    then show ?thesis using representable_pow2 [of 53 53] by simp
  next
    case False
    then have "\<bar>int n\<bar> < 2 ^ 53" using assms(1) by simp
    then have "representable 53 (real_of_int (int n))" by (rule representable_of_int)
    then show ?thesis by simp
  qed
  then show ?thesis
    unfolding f64_def using assms(2,3) by (intro fl_upper) simp_all
qed


lemma f64_unit: "0 \<le> x \<Longrightarrow> x \<le> 1 \<Longrightarrow> 0 \<le> f64 x \<and> f64 x \<le> 1"
  using f64_nonneg [of x] f64_le_nat [of 1 x] by simp

subsection \<open>Rectangular arrays, slices and slice assignment\<close>

lemma rect_length: "rect h w a \<Longrightarrow> length a = h"
  by (simp add: rect_def)

lemma rect_row: "rect h w a \<Longrightarrow> r \<in> set a \<Longrightarrow> length r = w"
  by (auto simp: rect_def list_all_iff)

lemma rect_nth: "rect h w a \<Longrightarrow> i < h \<Longrightarrow> length (a ! i) = w"
  by (auto simp: rect_def list_all_length)

lemma rectI: "length a = h \<Longrightarrow> (\<And>r. r \<in> set a \<Longrightarrow> length r = w) \<Longrightarrow> rect h w a"
  by (auto simp: rect_def list_all_iff)

lemma rect_nrows: "rect h w a \<Longrightarrow> nrows a = h"
  by (simp add: rect_def nrows_def)

lemma rect_ncols: "rect h w a \<Longrightarrow> 0 < h \<Longrightarrow> ncols a = w"
  by (cases a) (auto simp: rect_def ncols_def)

lemma rect_replicate: "rect h w (replicate h (replicate w z))"
  by (rule rectI) auto

lemma slice_index_in: "0 \<le> i \<Longrightarrow> i \<le> int n \<Longrightarrow> slice_index n i = nat i"
  by (simp add: slice_index_def)

lemma py_slice_length:
  assumes "0 \<le> a" "a \<le> b" "b \<le> int (length xs)"
  shows "length (py_slice xs a b) = nat (b - a)"
  using assms by (simp add: py_slice_def Let_def slice_index_in)

lemma slice2_rect:
  assumes "rect h w arr" "0 \<le> y0" "y0 \<le> y1" "y1 \<le> int h" "0 \<le> x0" "x0 \<le> x1" "x1 \<le> int w"
  shows "rect (nat (y1 - y0)) (nat (x1 - x0)) (slice2 arr y0 y1 x0 x1)"
proof (rule rectI)
  have len: "length arr = h" using assms(1) by (rule rect_length)
  show "length (slice2 arr y0 y1 x0 x1) = nat (y1 - y0)"
    using assms len by (simp add: slice2_def py_slice_length)
next
  fix r assume "r \<in> set (slice2 arr y0 y1 x0 x1)"
  then obtain r0 where r0: "r0 \<in> set (py_slice arr y0 y1)" and r: "r = py_slice r0 x0 x1"
    by (auto simp: slice2_def)
  from r0 have "r0 \<in> set arr"
    by (auto simp: py_slice_def Let_def dest: in_set_takeD in_set_dropD)
  then have "length r0 = w" using assms(1) by (rule rect_row [rotated])
  then show "length r = nat (x1 - x0)"
    using assms r by (simp add: py_slice_length)
qed

lemma assign_slice2_rect:
  assumes arr: "rect h w arr" and h: "0 < h"
    and y: "0 \<le> y0" "y0 \<le> y1" "y1 \<le> int h"
    and x: "0 \<le> x0" "x0 \<le> x1" "x1 \<le> int w"
    and src: "rect (nat (y1 - y0)) (nat (x1 - x0)) src"
  shows "\<exists>r. assign_slice2 arr y0 y1 x0 x1 src = Inr r \<and> rect h w r"
proof -
  have nr: "nrows arr = h" and nc: "ncols arr = w"
    using arr h by (simp_all add: rect_nrows rect_ncols)
  have len: "length arr = h" using arr by (rule rect_length)
  have ya: "slice_index h y0 = nat y0" and yb: "slice_index h y1 = nat y1"
    and xa: "slice_index w x0 = nat x0" and xb: "slice_index w x1 = nat x1"
    using x y by (simp_all add: slice_index_in)
  have rh: "nat y1 - nat y0 = nat (y1 - y0)" and rw: "nat x1 - nat x0 = nat (x1 - x0)"
    using x y by simp_all
  let ?mid = "map (\<lambda>(row, srow). take (nat x0) row @ srow @ drop (nat x0 + nat (x1 - x0)) row)
                (zip (take (nat (y1 - y0)) (drop (nat y0) arr)) src)"
  let ?r = "take (nat y0) arr @ ?mid @ drop (nat y0 + nat (y1 - y0)) arr"
  have eq: "assign_slice2 arr y0 y1 x0 x1 src = Inr ?r"
    using src by (simp add: assign_slice2_def Let_def nr nc ya yb xa xb rh rw)
  have "rect h w ?r"
  proof (rule rectI)
    have "length src = nat (y1 - y0)" using src by (rule rect_length)
    then show "length ?r = h"
      using len y by simp
  next
    fix r assume "r \<in> set ?r"
    then have "r \<in> set (take (nat y0) arr) \<or> r \<in> set ?mid
        \<or> r \<in> set (drop (nat y0 + nat (y1 - y0)) arr)"
      by (simp only: set_append Un_iff)
    then consider "r \<in> set (take (nat y0) arr)" | "r \<in> set ?mid"
      | "r \<in> set (drop (nat y0 + nat (y1 - y0)) arr)"
      by blast
    then show "length r = w"
    proof cases
      case 1
      then have "r \<in> set arr" by (rule in_set_takeD)
      then show ?thesis using arr by (rule rect_row [rotated])
    next
      case 2
      then obtain row srow where rs: "(row, srow) \<in> set (zip (take (nat (y1 - y0)) (drop (nat y0) arr)) src)"
        and r: "r = take (nat x0) row @ srow @ drop (nat x0 + nat (x1 - x0)) row"
        by auto
      from rs have "row \<in> set (take (nat (y1 - y0)) (drop (nat y0) arr))"
        by (rule set_zip_leftD)
      then have "row \<in> set arr"
        by (blast dest: in_set_takeD in_set_dropD)
      from rs have s: "srow \<in> set src"
        by (rule set_zip_rightD)
      from arr \<open>row \<in> set arr\<close> have "length row = w" by (rule rect_row)
      moreover have "length srow = nat (x1 - x0)" using src s by (rule rect_row)
      ultimately show ?thesis using r x by simp
    next
      case 3
      then have "r \<in> set arr" by (rule in_set_dropD)
      then show ?thesis using arr by (rule rect_row [rotated])
    qed
  qed
  with eq show ?thesis by blast
qed

lemma center_crop_pad_rect:
  assumes res: "rect (nat new_h) (nat new_w) resized"
    and nn: "0 \<le> new_w" "0 \<le> new_h"
    and tpos: "0 < target_width" "0 < target_height"
    and sx: "start_x = max 0 ((new_w - target_width) div 2)"
    and sy: "start_y = max 0 ((new_h - target_height) div 2)"
  shows "\<exists>r. center_crop_pad zero resized new_w new_h target_width target_height start_x start_y
               = Inr r \<and> rect (nat target_height) (nat target_width) r"
proof -
  define end_x where "end_x = min new_w (start_x + target_width)"
  define end_y where "end_y = min new_h (start_y + target_height)"
  define crop_w where "crop_w = end_x - start_x"
  define crop_h where "crop_h = end_y - start_y"
  define rsx where "rsx = (target_width - crop_w) div 2"
  define rsy where "rsy = (target_height - crop_h) div 2"
  have x: "0 \<le> start_x" "start_x \<le> end_x" "end_x \<le> new_w"
    using nn tpos by (auto simp: sx end_x_def)
  have y: "0 \<le> start_y" "start_y \<le> end_y" "end_y \<le> new_h"
    using nn tpos by (auto simp: sy end_y_def)
  have cw: "0 \<le> crop_w" "crop_w \<le> target_width"
    using x by (auto simp: crop_w_def end_x_def)
  have ch: "0 \<le> crop_h" "crop_h \<le> target_height"
    using y by (auto simp: crop_h_def end_y_def)
  have rx: "0 \<le> rsx" "rsx \<le> rsx + crop_w" "rsx + crop_w \<le> int (nat target_width)"
    using cw tpos by (auto simp: rsx_def)
  have ry: "0 \<le> rsy" "rsy \<le> rsy + crop_h" "rsy + crop_h \<le> int (nat target_height)"
    using ch tpos by (auto simp: rsy_def)
  have "rect (nat (end_y - start_y)) (nat (end_x - start_x))
          (slice2 resized start_y end_y start_x end_x)"
    using res x y nn by (intro slice2_rect) auto
  then have src: "rect (nat (rsy + crop_h - rsy)) (nat (rsx + crop_w - rsx))
          (slice2 resized start_y end_y start_x end_x)"
    by (simp add: crop_w_def crop_h_def)
  have "\<exists>r. assign_slice2 (replicate (nat target_height) (replicate (nat target_width) zero))
              rsy (rsy + crop_h) rsx (rsx + crop_w) (slice2 resized start_y end_y start_x end_x)
            = Inr r \<and> rect (nat target_height) (nat target_width) r"
    using rect_replicate tpos ry rx src by (intro assign_slice2_rect) auto
  then show ?thesis
    using tpos
    by (simp add: center_crop_pad_def Let_def end_x_def end_y_def crop_w_def crop_h_def
        rsx_def rsy_def)
qed

lemma cv2_contract_gray:
  "cv2_contract lib \<Longrightarrow> 0 < nw \<Longrightarrow> 0 < nh \<Longrightarrow> rect (nat nh) (nat nw) (resize_gray lib g nw nh)"
  by (simp add: cv2_contract_def)

lemma cv2_contract_color:
  "cv2_contract lib \<Longrightarrow> 0 < nw \<Longrightarrow> 0 < nh \<Longrightarrow> rect (nat nh) (nat nw) (resize_color lib c nw nh)"
  by (simp add: cv2_contract_def)

lemma cv2_contract_blur:
  "cv2_contract lib \<Longrightarrow> rect h w c \<Longrightarrow> rect h w (GaussianBlur lib c)"
  by (simp add: cv2_contract_def)

lemma resize_gray_shape:
  assumes lib: "cv2_contract lib" and tpos: "0 < target_width" "0 < target_height"
    and res: "resize_with_aspect_ratio lib (Gray g) target_width target_height = Inr a"
  shows "\<exists>dr. a = Gray dr \<and> rect (nat target_height) (nat target_width) dr"
proof -
  obtain new_w new_h where
    ss: "scaled_size (nrows g) (ncols g) target_width target_height = (new_w, new_h)"
    by (cases "scaled_size (nrows g) (ncols g) target_width target_height")
  have nz: "\<not> (ncols g = 0 \<or> nrows g = 0)"
    using res by (auto simp: resize_with_aspect_ratio_def split: if_splits)
  have n: "0 < new_w" "0 < new_h"
    using res nz ss by (auto simp: resize_with_aspect_ratio_def Let_def split: if_splits)
  have "rect (nat new_h) (nat new_w) (resize_gray lib g new_w new_h)"
    using lib n by (rule cv2_contract_gray)
  then obtain r where
    "center_crop_pad 0 (resize_gray lib g new_w new_h) new_w new_h target_width target_height
       (max 0 ((new_w - target_width) div 2)) (max 0 ((new_h - target_height) div 2)) = Inr r"
    and "rect (nat target_height) (nat target_width) r"
    using n tpos center_crop_pad_rect [of new_h new_w "resize_gray lib g new_w new_h"
        target_width target_height _ _ 0]
    by (metis less_imp_le)
  then show ?thesis
    using res nz n ss by (auto simp: resize_with_aspect_ratio_def Let_def)
qed

lemma resize_color_shape:
  assumes lib: "cv2_contract lib" and tpos: "0 < target_width" "0 < target_height"
    and res: "resize_with_aspect_ratio lib (Color c) target_width target_height = Inr a"
  shows "\<exists>ir. a = Color ir \<and> rect (nat target_height) (nat target_width) ir"
proof -
  obtain new_w new_h where
    ss: "scaled_size (nrows c) (ncols c) target_width target_height = (new_w, new_h)"
    by (cases "scaled_size (nrows c) (ncols c) target_width target_height")
  have nz: "\<not> (ncols c = 0 \<or> nrows c = 0)"
    using res by (auto simp: resize_with_aspect_ratio_def split: if_splits)
  have n: "0 < new_w" "0 < new_h"
    using res nz ss by (auto simp: resize_with_aspect_ratio_def Let_def split: if_splits)
  have "rect (nat new_h) (nat new_w) (resize_color lib c new_w new_h)"
    using lib n by (rule cv2_contract_color)
  then obtain r where
    "center_crop_pad (replicate (nchannels c) 0) (resize_color lib c new_w new_h) new_w new_h
       target_width target_height
       (max 0 ((new_w - target_width) div 2)) (max 0 ((new_h - target_height) div 2)) = Inr r"
    and "rect (nat target_height) (nat target_width) r"
    using n tpos center_crop_pad_rect [of new_h new_w "resize_color lib c new_w new_h"
        target_width target_height _ _ "replicate (nchannels c) 0"]
    by (metis less_imp_le)
  then show ?thesis
    using res nz n ss by (auto simp: resize_with_aspect_ratio_def Let_def)
qed

lemma nearest_resize_rect: "rect (nat nh) (nat nw) (nearest_resize a nw nh)"
  by (rule rectI) (auto simp: nearest_resize_def)

lemma reference_cv2_contract: "cv2_contract reference_cv2"
  by (simp add: cv2_contract_def reference_cv2_def nearest_resize_rect)

subsection \<open>Bilinear resampler\<close>

lemma np_clip_bounds: "lo \<le> hi \<Longrightarrow> lo \<le> np_clip a lo hi \<and> np_clip a lo hi \<le> hi"
  by (auto simp: np_clip_def)

lemma np_clip_id: "lo \<le> a \<Longrightarrow> a \<le> hi \<Longrightarrow> np_clip a lo hi = a"
  by (auto simp: np_clip_def)

lemma corner_indices_bounds:
  assumes "rect h w img" "0 < h" "0 < w"
    and "corner_indices img x y = (x0, x1, y0, y1)"
  shows "0 \<le> x0 \<and> x0 < int w \<and> 0 \<le> x1 \<and> x1 < int w
       \<and> 0 \<le> y0 \<and> y0 < int h \<and> 0 \<le> y1 \<and> y1 < int h"
proof -
  have nr: "nrows img = h" and nc: "ncols img = w"
    using assms(1,2) by (simp_all add: rect_nrows rect_ncols)
  have w: "(0::int) \<le> int w - 1" and h: "(0::int) \<le> int h - 1"
    using assms(2,3) by simp_all
  show ?thesis
    using assms(4) np_clip_bounds [OF w] np_clip_bounds [OF h]
    by (auto simp: corner_indices_def Let_def nr nc)
qed

lemma img_at_in:
  assumes "rect h w img" "0 < h" "0 \<le> y" "y < int h" "0 \<le> x" "x < int w"
  shows "img_at img y x = Inr (img ! nat y ! nat x)"
  using assms by (simp add: img_at_def Let_def rect_nrows rect_ncols)

lemma bilinear_px_Inr:
  assumes "rect h w img" "0 < h" "0 < w"
  shows "\<exists>p. bilinear_px img x y = Inr p"
proof -
  obtain x0 x1 y0 y1 where ci: "corner_indices img x y = (x0, x1, y0, y1)"
    by (cases "corner_indices img x y") auto
  note b = corner_indices_bounds [OF assms ci]
  have "img_at img y0 x0 = Inr (img ! nat y0 ! nat x0)"
    "img_at img y0 x1 = Inr (img ! nat y0 ! nat x1)"
    "img_at img y1 x0 = Inr (img ! nat y1 ! nat x0)"
    "img_at img y1 x1 = Inr (img ! nat y1 ! nat x1)"
    using b assms(1,2) by (simp_all add: img_at_in)
  then show ?thesis
    by (simp add: bilinear_px_def ci)
qed

lemma rect3_rect: "rect3 h w c img \<Longrightarrow> rect h w img"
  by (simp add: rect3_def)

lemma rect3_pixel: "rect3 h w c img \<Longrightarrow> i < h \<Longrightarrow> j < w \<Longrightarrow> length (img ! i ! j) = c"
  by (auto simp: rect3_def rect_def list_all_length)

lemma bilinear_px_eq:
  assumes img: "rect3 h w c img" and pos: "0 < h" "0 < w"
  shows "bilinear_px img x y = Inr (map (\<lambda>k. astype_uint8 (blend_at img x y k)) [0..<c])"
proof -
  have r: "rect h w img" using img by (rule rect3_rect)
  obtain x0 x1 y0 y1 where ci: "corner_indices img x y = (x0, x1, y0, y1)"
    by (cases "corner_indices img x y") auto
  note b = corner_indices_bounds [OF r pos ci]
  define p00 where "p00 = img ! nat y0 ! nat x0"
  define p01 where "p01 = img ! nat y0 ! nat x1"
  define p10 where "p10 = img ! nat y1 ! nat x0"
  define p11 where "p11 = img ! nat y1 ! nat x1"
  have at: "img_at img y0 x0 = Inr p00" "img_at img y0 x1 = Inr p01"
    "img_at img y1 x0 = Inr p10" "img_at img y1 x1 = Inr p11"
    using b r pos by (simp_all add: img_at_in p00_def p01_def p10_def p11_def)
  have len: "length p00 = c" "length p01 = c" "length p10 = c" "length p11 = c"
    unfolding p00_def p01_def p10_def p11_def
    using b by (auto intro!: rect3_pixel [OF img])
  let ?f = "\<lambda>(a, b, c, d). astype_uint8 (blend (u8_real a) (u8_real b) (u8_real c) (u8_real d)
              (f64 (x - real_of_int x0)) (f64 (y - real_of_int y0)))"
  have "map ?f (zip p00 (zip p01 (zip p10 p11)))
        = map (\<lambda>k. astype_uint8 (blend_at img x y k)) [0..<c]"
  proof (rule nth_equalityI)
    show "length (map ?f (zip p00 (zip p01 (zip p10 p11))))
          = length (map (\<lambda>k. astype_uint8 (blend_at img x y k)) [0..<c])"
      using len by simp
  next
    fix k assume "k < length (map ?f (zip p00 (zip p01 (zip p10 p11))))"
    then have k: "k < c" using len by simp
    then show "map ?f (zip p00 (zip p01 (zip p10 p11))) ! k
               = map (\<lambda>k. astype_uint8 (blend_at img x y k)) [0..<c] ! k"
      using len
      by (simp add: blend_at_def blend_weights_def corner_values_def ci
          p00_def p01_def p10_def p11_def)
  qed
  then show ?thesis
    by (simp add: bilinear_px_def ci at)
qed

lemma bilinear_interpolate_Inr:
  assumes "rect h w img" "0 < h" "0 < w" and shape: "map length x = map length y"
  shows "bilinear_interpolate img x y
         = Inr (map (\<lambda>(xr, yr). map (\<lambda>(xv, yv). projr (bilinear_px img xv yv)) (zip xr yr))
                    (zip x y))"
proof -
  have ok: "\<And>xv yv. \<not> isl (bilinear_px img xv yv)"
    using bilinear_px_Inr [OF assms(1-3)] by (metis sum.disc(2))
  have "list_all (list_all (\<lambda>c. \<not> isl c))
          (map (\<lambda>(xr, yr). map (\<lambda>(xv, yv). bilinear_px img xv yv) (zip xr yr)) (zip x y))"
    by (auto simp: list_all_iff ok)
  then show ?thesis
    using shape by (simp add: bilinear_interpolate_def Let_def split_def comp_def)
qed

lemma bilinear_interpolate_nth:
  assumes "rect h w img" "0 < h" "0 < w" and shape: "map length x = map length y"
    and i: "i < length x" and j: "j < length (x ! i)"
  shows "\<exists>out. bilinear_interpolate img x y = Inr out
         \<and> length out = length x \<and> length (out ! i) = length (x ! i)
         \<and> out ! i ! j = projr (bilinear_px img (x ! i ! j) (y ! i ! j))"
proof -
  have ly: "length y = length x"
    using shape by (metis length_map)
  have lyi: "length (y ! i) = length (x ! i)"
    using shape i ly by (metis nth_map)
  show ?thesis
    using i j ly lyi
    by (simp add: bilinear_interpolate_Inr [OF assms(1-4)])
qed

lemma bilinear_interpolate_rect:
  assumes "rect h w img" "0 < h" "0 < w" and x: "rect h' w' x" and y: "rect h' w' y"
  shows "\<exists>out. bilinear_interpolate img x y = Inr out \<and> rect h' w' out"
proof -
  have shape: "map length x = map length y"
    using x y by (auto simp: rect_def list_all_length intro!: nth_equalityI)
  have "rect h' w' (map (\<lambda>(xr, yr). map (\<lambda>(xv, yv). projr (bilinear_px img xv yv)) (zip xr yr))
                    (zip x y))"
  proof (rule rectI)
    show "length (map (\<lambda>(xr, yr). map (\<lambda>(xv, yv). projr (bilinear_px img xv yv)) (zip xr yr))
                    (zip x y)) = h'"
      using x y by (simp add: rect_length)
  next
    fix r assume "r \<in> set (map (\<lambda>(xr, yr). map (\<lambda>(xv, yv). projr (bilinear_px img xv yv)) (zip xr yr))
                    (zip x y))"
    then obtain xr yr where m: "(xr, yr) \<in> set (zip x y)"
      and r: "r = map (\<lambda>(xv, yv). projr (bilinear_px img xv yv)) (zip xr yr)"
      by auto
    from m have "xr \<in> set x" "yr \<in> set y"
      by (auto dest: set_zip_leftD set_zip_rightD)
    then have "length xr = w'" "length yr = w'"
      using x y by (auto dest: rect_row)
    then show "length r = w'" using r by simp
  qed
  then show ?thesis
    using bilinear_interpolate_Inr [OF assms(1-3) shape] by simp
qed

lemma corner_indices_in_range:
  assumes "rect h w img" "0 < h" "0 < w"
    and "0 \<le> x" "x \<le> real w - 1" "0 \<le> y" "y \<le> real h - 1"
  shows "corner_indices img x y
         = (\<lfloor>x\<rfloor>, np_clip (\<lfloor>x\<rfloor> + 1) 0 (int w - 1), \<lfloor>y\<rfloor>, np_clip (\<lfloor>y\<rfloor> + 1) 0 (int h - 1))"
proof -
  have nr: "nrows img = h" and nc: "ncols img = w"
    using assms(1,2) by (simp_all add: rect_nrows rect_ncols)
  have fx: "0 \<le> \<lfloor>x\<rfloor>" "\<lfloor>x\<rfloor> \<le> int w - 1"
    using assms(4,5) by (simp_all add: floor_le_iff) linarith
  have fy: "0 \<le> \<lfloor>y\<rfloor>" "\<lfloor>y\<rfloor> \<le> int h - 1"
    using assms(6,7) by (simp_all add: floor_le_iff) linarith
  have cx: "np_clip \<lfloor>x\<rfloor> 0 (int w - 1) = \<lfloor>x\<rfloor>"
    using fx by (rule np_clip_id)
  have cy: "np_clip \<lfloor>y\<rfloor> 0 (int h - 1) = \<lfloor>y\<rfloor>"
    using fy by (rule np_clip_id)
  show ?thesis
    by (simp add: corner_indices_def Let_def nr nc cx cy)
qed

lemma blend_weights_in_range:
  assumes "rect h w img" "0 < h" "0 < w"
    and "0 \<le> x" "x \<le> real w - 1" "0 \<le> y" "y \<le> real h - 1"
  shows "blend_weights img x y = (f64 (x - real_of_int \<lfloor>x\<rfloor>), f64 (y - real_of_int \<lfloor>y\<rfloor>))"
  by (simp add: blend_weights_def corner_indices_in_range [OF assms])

lemma lerp_lower:
  fixes t a b lo :: real
  assumes "0 \<le> t" "t \<le> 1" "lo \<le> a" "lo \<le> b"
  shows "lo \<le> (1 - t) * a + t * b"
proof -
  have "(1 - t) * lo \<le> (1 - t) * a" "t * lo \<le> t * b"
    using assms by (simp_all add: mult_left_mono)
  then have "(1 - t) * lo + t * lo \<le> (1 - t) * a + t * b" by linarith
  then show ?thesis by (simp add: algebra_simps)
qed

lemma lerp_upper:
  fixes t a b hi :: real
  assumes "0 \<le> t" "t \<le> 1" "a \<le> hi" "b \<le> hi"
  shows "(1 - t) * a + t * b \<le> hi"
proof -
  have "(1 - t) * a \<le> (1 - t) * hi" "t * b \<le> t * hi"
    using assms by (simp_all add: mult_left_mono)
  then have "(1 - t) * a + t * b \<le> (1 - t) * hi + t * hi" by linarith
  then show ?thesis by (simp add: algebra_simps)
qed

lemma convex_blend_lerp:
  "convex_blend a b c d wx wy = (1 - wy) * ((1 - wx) * a + wx * b) + wy * ((1 - wx) * c + wx * d)"
  by (simp add: convex_blend_def algebra_simps)

lemma convex_blend_bounds:
  assumes "0 \<le> wx" "wx \<le> 1" "0 \<le> wy" "wy \<le> 1"
    and "lo \<le> a" "lo \<le> b" "lo \<le> c" "lo \<le> d"
    and "a \<le> hi" "b \<le> hi" "c \<le> hi" "d \<le> hi"
  shows "lo \<le> convex_blend a b c d wx wy \<and> convex_blend a b c d wx wy \<le> hi"
  unfolding convex_blend_lerp
  using assms by (intro conjI lerp_lower lerp_upper) auto

lemma u8_real_range: "0 \<le> u8_real a \<and> u8_real a \<le> 255"
proof -
  define n where "n = unat a"
  have "n < 256" using unsigned_less [of a, where ?'a = nat] by (simp add: n_def)
  then have "0 \<le> real n \<and> real n \<le> 255" by simp
  then show ?thesis unfolding u8_real_def n_def .
qed

lemma astype_uint8_in_range:
  assumes "0 \<le> v" "v < 256"
  shows "uint (astype_uint8 v) = \<lfloor>v\<rfloor>" and "u8_real (astype_uint8 v) = real_of_int \<lfloor>v\<rfloor>"
proof -
  have f: "0 \<le> \<lfloor>v\<rfloor>" "\<lfloor>v\<rfloor> < 256"
    using assms by (simp_all add: floor_less_iff)
  then show u: "uint (astype_uint8 v) = \<lfloor>v\<rfloor>"
    using assms by (simp add: astype_uint8_def py_int_def uint_word_of_int take_bit_eq_mod)
  have "int (unat (astype_uint8 v)) = \<lfloor>v\<rfloor>"
    using u by simp
  then show "u8_real (astype_uint8 v) = real_of_int \<lfloor>v\<rfloor>"
    unfolding u8_real_def by (metis of_int_of_nat_eq)
qed

lemma astype_uint8_u8_real: "astype_uint8 (u8_real a) = a"
proof -
  have "\<lfloor>real (unat a)\<rfloor> = int (unat a)"
    by (rule floor_of_nat)
  moreover have "(word_of_int (int (unat a)) :: u8) = a"
    by simp
  moreover have "0 \<le> real (unat a)"
    by (rule of_nat_0_le_iff)
  ultimately show ?thesis
    unfolding astype_uint8_def u8_real_def py_int_def by (simp only: if_True)
qed

lemma corner_values_length: "length (corner_values img x y k) = 4"
  by (simp add: corner_values_def split_def Let_def)

lemma corner_values_u8:
  assumes "v \<in> set (corner_values img x y k)"
  shows "0 \<le> v \<and> v \<le> 255"
  using assms u8_real_range by (auto simp: corner_values_def split_def Let_def)

lemma f64_u8_real [simp]: "f64 (u8_real a) = u8_real a"
proof -
  have "unat a < 2 ^ 53"
    using unsigned_less [of a, where ?'a = nat] by simp
  then show ?thesis
    unfolding u8_real_def by (rule f64_of_nat)
qed

lemma blend_zero_weights: "blend (u8_real a) b c d 0 0 = u8_real a"
  by (simp add: blend_def)

lemma blend_weights_unit:
  assumes "rect h w img" "0 < h" "0 < w"
    and "0 \<le> x" "x \<le> real w - 1" "0 \<le> y" "y \<le> real h - 1"
  shows "\<exists>wx wy. blend_weights img x y = (wx, wy) \<and> 0 \<le> wx \<and> wx \<le> 1 \<and> 0 \<le> wy \<and> wy \<le> 1"
proof -
  have "0 \<le> x - real_of_int \<lfloor>x\<rfloor>" "x - real_of_int \<lfloor>x\<rfloor> \<le> 1"
    "0 \<le> y - real_of_int \<lfloor>y\<rfloor>" "y - real_of_int \<lfloor>y\<rfloor> \<le> 1"
    by linarith+
  then have "0 \<le> f64 (x - real_of_int \<lfloor>x\<rfloor>) \<and> f64 (x - real_of_int \<lfloor>x\<rfloor>) \<le> 1"
    "0 \<le> f64 (y - real_of_int \<lfloor>y\<rfloor>) \<and> f64 (y - real_of_int \<lfloor>y\<rfloor>) \<le> 1"
    by (simp_all only: f64_unit)
  then show ?thesis
    by (simp add: blend_weights_in_range [OF assms])
qed

text \<open>
  Rounding error of the blend. A product of a value in \<open>[0, 255]\<close> and a weight in
  \<open>[0, 1]\<close>, each known up to an error, is rounded with an error of at most \<open>255 / 2\<^sup>5\<^sup>3\<close>.
\<close>

lemma f64_mul_err:
  assumes xh: "0 \<le> xh" "xh \<le> 255" and x: "0 \<le> x" "x \<le> 255" and ex: "\<bar>xh - x\<bar> \<le> ex"
    and wh: "0 \<le> wh" "wh \<le> 1" and w: "0 \<le> w" "w \<le> 1" and ew: "\<bar>wh - w\<bar> \<le> ew"
  shows "0 \<le> f64 (xh * wh) \<and> f64 (xh * wh) \<le> 255
       \<and> \<bar>f64 (xh * wh) - x * w\<bar> \<le> ex + 255 * ew + 255 / 2 ^ 53"
proof -
  have p0: "0 \<le> xh * wh" using xh wh by simp
  have "xh * wh \<le> 255 * 1" using xh wh by (intro mult_mono) simp_all
  then have p1: "xh * wh \<le> real 255" by simp
  have r0: "0 \<le> f64 (xh * wh)" using p0 by (rule f64_nonneg)
  have "f64 (xh * wh) \<le> real 255" using _ p0 p1 by (rule f64_le_nat) simp
  then have r1: "f64 (xh * wh) \<le> 255" by simp
  have "\<bar>xh * wh\<bar> \<le> 255" using p0 p1 by simp
  then have e1: "\<bar>f64 (xh * wh) - xh * wh\<bar> \<le> 255 / 2 ^ 53" by (rule f64_err)
  have "xh * wh - x * w = (xh - x) * wh + x * (wh - w)" by (simp add: algebra_simps)
  then have "\<bar>xh * wh - x * w\<bar> \<le> \<bar>(xh - x) * wh\<bar> + \<bar>x * (wh - w)\<bar>" by linarith
  also have "\<bar>(xh - x) * wh\<bar> = \<bar>xh - x\<bar> * wh" using wh by (simp add: abs_mult)
  also have "\<bar>x * (wh - w)\<bar> = x * \<bar>wh - w\<bar>" using x by (simp add: abs_mult)
  finally have e2: "\<bar>xh * wh - x * w\<bar> \<le> \<bar>xh - x\<bar> * wh + x * \<bar>wh - w\<bar>" .
  have "0 \<le> ex" using ex by linarith
  have "\<bar>xh - x\<bar> * wh \<le> ex * 1" using ex wh \<open>0 \<le> ex\<close> by (intro mult_mono) simp_all
  moreover have "x * \<bar>wh - w\<bar> \<le> 255 * ew" using x ew by (intro mult_mono) simp_all
  ultimately have "\<bar>xh * wh - x * w\<bar> \<le> ex + 255 * ew" using e2 by linarith
  then have "\<bar>f64 (xh * wh) - x * w\<bar> \<le> ex + 255 * ew + 255 / 2 ^ 53"
    using e1 by linarith
  with r0 r1 show ?thesis by simp
qed

lemma f64_add_err:
  assumes "0 \<le> x" "x \<le> real n" "0 \<le> y" "y \<le> real k" "n + k < 2 ^ 53"
  shows "0 \<le> f64 (x + y) \<and> f64 (x + y) \<le> real (n + k)
       \<and> \<bar>f64 (x + y) - (x + y)\<bar> \<le> real (n + k) / 2 ^ 53"
proof -
  have s: "0 \<le> x + y" "x + y \<le> real (n + k)" using assms by simp_all
  have "0 \<le> f64 (x + y)" using s(1) by (rule f64_nonneg)
  moreover have "f64 (x + y) \<le> real (n + k)" using assms(5) s by (intro f64_le_nat) simp_all
  moreover have "\<bar>x + y\<bar> \<le> real (n + k)" using s by simp
  then have "\<bar>f64 (x + y) - (x + y)\<bar> \<le> real (n + k) / 2 ^ 53" by (rule f64_err)
  ultimately show ?thesis by simp
qed

lemma blend_error:
  assumes w: "0 \<le> wx" "wx \<le> 1" "0 \<le> wy" "wy \<le> 1"
    and a: "0 \<le> a" "a \<le> 255" and b: "0 \<le> b" "b \<le> 255"
    and c: "0 \<le> c" "c \<le> 255" and d: "0 \<le> d" "d \<le> 255"
  shows "0 \<le> blend a b c d wx wy
       \<and> \<bar>blend a b c d wx wy - convex_blend a b c d wx wy\<bar> \<le> 5355 / 2 ^ 53"
proof -
  define ox where "ox = f64 (1 - wx)"
  define oy where "oy = f64 (1 - wy)"
  define m00 where "m00 = f64 (a * ox)"
  define m01 where "m01 = f64 (b * wx)"
  define m10 where "m10 = f64 (c * ox)"
  define m11 where "m11 = f64 (d * wx)"
  define t00 where "t00 = f64 (m00 * oy)"
  define t01 where "t01 = f64 (m01 * oy)"
  define t10 where "t10 = f64 (m10 * wy)"
  define t11 where "t11 = f64 (m11 * wy)"
  define s1 where "s1 = f64 (t00 + t01)"
  define s2 where "s2 = f64 (s1 + t10)"
  define s3 where "s3 = f64 (s2 + t11)"
  have bl: "blend a b c d wx wy = s3"
    by (simp add: blend_def Let_def s3_def s2_def s1_def t00_def t01_def t10_def t11_def
        m00_def m01_def m10_def m11_def ox_def oy_def)
  have cw: "0 \<le> 1 - wx" "1 - wx \<le> 1" "0 \<le> 1 - wy" "1 - wy \<le> 1"
    using w by simp_all
  have ox: "0 \<le> ox" "ox \<le> 1" "\<bar>ox - (1 - wx)\<bar> \<le> 1 / 2 ^ 53"
    unfolding ox_def using f64_unit [OF cw(1,2)] f64_err [of "1 - wx" 1] cw by simp_all
  have oy: "0 \<le> oy" "oy \<le> 1" "\<bar>oy - (1 - wy)\<bar> \<le> 1 / 2 ^ 53"
    unfolding oy_def using f64_unit [OF cw(3,4)] f64_err [of "1 - wy" 1] cw by simp_all
  have id: "\<And>v::real. \<bar>v - v\<bar> \<le> 0" by simp
  have ax: "0 \<le> a * (1 - wx)" "a * (1 - wx) \<le> 255"
    using a cw mult_mono [of a 255 "1 - wx" 1] by simp_all
  have bx: "0 \<le> b * wx" "b * wx \<le> 255"
    using b w mult_mono [of b 255 wx 1] by simp_all
  have cx: "0 \<le> c * (1 - wx)" "c * (1 - wx) \<le> 255"
    using c cw mult_mono [of c 255 "1 - wx" 1] by simp_all
  have dx: "0 \<le> d * wx" "d * wx \<le> 255"
    using d w mult_mono [of d 255 wx 1] by simp_all
  have m00: "0 \<le> m00" "m00 \<le> 255" "\<bar>m00 - a * (1 - wx)\<bar> \<le> 510 / 2 ^ 53"
    unfolding m00_def using f64_mul_err [OF a a id ox(1,2) cw(1,2) ox(3)] by simp_all
  have m01: "0 \<le> m01" "m01 \<le> 255" "\<bar>m01 - b * wx\<bar> \<le> 255 / 2 ^ 53"
    unfolding m01_def using f64_mul_err [OF b b id w(1,2) w(1,2) id] by simp_all
  have m10: "0 \<le> m10" "m10 \<le> 255" "\<bar>m10 - c * (1 - wx)\<bar> \<le> 510 / 2 ^ 53"
    unfolding m10_def using f64_mul_err [OF c c id ox(1,2) cw(1,2) ox(3)] by simp_all
  have m11: "0 \<le> m11" "m11 \<le> 255" "\<bar>m11 - d * wx\<bar> \<le> 255 / 2 ^ 53"
    unfolding m11_def using f64_mul_err [OF d d id w(1,2) w(1,2) id] by simp_all
  have t00: "0 \<le> t00" "t00 \<le> 255" "\<bar>t00 - a * (1 - wx) * (1 - wy)\<bar> \<le> 1020 / 2 ^ 53"
    unfolding t00_def using f64_mul_err [OF m00(1,2) ax m00(3) oy(1,2) cw(3,4) oy(3)] by simp_all
  have t01: "0 \<le> t01" "t01 \<le> 255" "\<bar>t01 - b * wx * (1 - wy)\<bar> \<le> 765 / 2 ^ 53"
    unfolding t01_def using f64_mul_err [OF m01(1,2) bx m01(3) oy(1,2) cw(3,4) oy(3)] by simp_all
  have t10: "0 \<le> t10" "t10 \<le> 255" "\<bar>t10 - c * (1 - wx) * wy\<bar> \<le> 765 / 2 ^ 53"
    unfolding t10_def using f64_mul_err [OF m10(1,2) cx m10(3) w(3,4) w(3,4) id] by simp_all
  have t11: "0 \<le> t11" "t11 \<le> 255" "\<bar>t11 - d * wx * wy\<bar> \<le> 510 / 2 ^ 53"
    unfolding t11_def using f64_mul_err [OF m11(1,2) dx m11(3) w(3,4) w(3,4) id] by simp_all
  have s1: "0 \<le> s1" "s1 \<le> 510" "\<bar>s1 - (t00 + t01)\<bar> \<le> 510 / 2 ^ 53"
    unfolding s1_def using f64_add_err [of t00 255 t01 255] t00(1,2) t01(1,2) by simp_all
  have s2: "0 \<le> s2" "s2 \<le> 765" "\<bar>s2 - (s1 + t10)\<bar> \<le> 765 / 2 ^ 53"
    unfolding s2_def using f64_add_err [of s1 510 t10 255] s1(1,2) t10(1,2) by simp_all
  have s3: "0 \<le> s3" "\<bar>s3 - (s2 + t11)\<bar> \<le> 1020 / 2 ^ 53"
    unfolding s3_def using f64_add_err [of s2 765 t11 255] s2(1,2) t11(1,2) by simp_all
  have "\<bar>s3 - (a * (1 - wx) * (1 - wy) + b * wx * (1 - wy) + c * (1 - wx) * wy + d * wx * wy)\<bar>
        \<le> 5355 / 2 ^ 53"
    using t00(3) t01(3) t10(3) t11(3) s1(3) s2(3) s3(2) by linarith
  then show ?thesis
    using s3(1) by (simp add: bl convex_blend_def)
qed

lemma blend_at_range:
  assumes w: "blend_weights img x y = (wx, wy)" "0 \<le> wx" "wx \<le> 1" "0 \<le> wy" "wy \<le> 1"
    and vs: "vs = corner_values img x y k"
  shows "\<bar>blend_at img x y k - convex_blend (vs ! 0) (vs ! 1) (vs ! 2) (vs ! 3) wx wy\<bar>
           \<le> 5355 / 2 ^ 53
       \<and> Min (set vs) \<le> convex_blend (vs ! 0) (vs ! 1) (vs ! 2) (vs ! 3) wx wy
       \<and> convex_blend (vs ! 0) (vs ! 1) (vs ! 2) (vs ! 3) wx wy \<le> Max (set vs)
       \<and> 0 \<le> blend_at img x y k \<and> blend_at img x y k < 256"
proof -
  have len: "length vs = 4" by (simp add: vs corner_values_length)
  have mem: "vs ! 0 \<in> set vs" "vs ! 1 \<in> set vs" "vs ! 2 \<in> set vs" "vs ! 3 \<in> set vs"
    using len by simp_all
  have lo: "Min (set vs) \<le> vs ! 0" "Min (set vs) \<le> vs ! 1" "Min (set vs) \<le> vs ! 2"
    "Min (set vs) \<le> vs ! 3"
    using mem by simp_all
  have hi: "vs ! 0 \<le> Max (set vs)" "vs ! 1 \<le> Max (set vs)" "vs ! 2 \<le> Max (set vs)"
    "vs ! 3 \<le> Max (set vs)"
    using mem by simp_all
  have u: "\<And>v. v \<in> set vs \<Longrightarrow> 0 \<le> v \<and> v \<le> 255"
    unfolding vs by (rule corner_values_u8)
  have r: "0 \<le> vs ! 0" "vs ! 0 \<le> 255" "0 \<le> vs ! 1" "vs ! 1 \<le> 255"
    "0 \<le> vs ! 2" "vs ! 2 \<le> 255" "0 \<le> vs ! 3" "vs ! 3 \<le> 255"
    using u mem by simp_all
  define e where "e = convex_blend (vs ! 0) (vs ! 1) (vs ! 2) (vs ! 3) wx wy"
  have b: "blend_at img x y k = blend (vs ! 0) (vs ! 1) (vs ! 2) (vs ! 3) wx wy"
    by (simp add: blend_at_def w(1) vs Let_def)
  have err: "0 \<le> blend_at img x y k" "\<bar>blend_at img x y k - e\<bar> \<le> 5355 / 2 ^ 53"
    unfolding b e_def using blend_error [OF w(2-5) r] by simp_all
  have conv: "Min (set vs) \<le> e \<and> e \<le> Max (set vs)"
    unfolding e_def using w(2-5) lo hi by (intro convex_blend_bounds)
  have "0 \<le> e \<and> e \<le> 255"
    unfolding e_def using w(2-5) r by (intro convex_blend_bounds)
  moreover have "(5355::real) / 2 ^ 53 < 1" by simp
  ultimately have "blend_at img x y k < 256"
    using err(2) by linarith
  with err conv show ?thesis by (simp add: e_def)
qed

lemma bilinear_interpolate_channel:
  assumes img: "rect3 h w c img" and pos: "0 < h" "0 < w"
    and shape: "map length x = map length y"
    and i: "i < length x" and j: "j < length (x ! i)" and k: "k < c"
  shows "\<exists>out. bilinear_interpolate img x y = Inr out
         \<and> length out = length x \<and> length (out ! i) = length (x ! i)
         \<and> length (out ! i ! j) = c
         \<and> out ! i ! j ! k = astype_uint8 (blend_at img (x ! i ! j) (y ! i ! j) k)"
proof -
  have r: "rect h w img" using img by (rule rect3_rect)
  obtain out where out: "bilinear_interpolate img x y = Inr out"
    "length out = length x" "length (out ! i) = length (x ! i)"
    "out ! i ! j = projr (bilinear_px img (x ! i ! j) (y ! i ! j))"
    using bilinear_interpolate_nth [OF r pos shape i j] by blast
  have "out ! i ! j = map (\<lambda>k. astype_uint8 (blend_at img (x ! i ! j) (y ! i ! j) k)) [0..<c]"
    by (simp add: out(4) bilinear_px_eq [OF img pos])
  then have "length (out ! i ! j) = c"
    "out ! i ! j ! k = astype_uint8 (blend_at img (x ! i ! j) (y ! i ! j) k)"
    using k by simp_all
  with out show ?thesis by blast
qed

lemma bilinear_px_on_grid:
  assumes img: "rect3 h w c img" and pos: "0 < h" "0 < w" and ij: "i < h" "j < w"
  shows "bilinear_px img (real j) (real i) = Inr (img ! i ! j)"
proof -
  have r: "rect h w img" using img by (rule rect3_rect)
  have rng: "0 \<le> real j" "real j \<le> real w - 1" "0 \<le> real i" "real i \<le> real h - 1"
    using ij by auto
  have ci: "corner_indices img (real j) (real i)
            = (int j, np_clip (int j + 1) 0 (int w - 1), int i, np_clip (int i + 1) 0 (int h - 1))"
    using corner_indices_in_range [OF r pos rng] by simp
  have b: "\<And>k. blend_at img (real j) (real i) k = u8_real (img ! i ! j ! k)"
    by (simp add: blend_at_def blend_weights_def corner_values_def ci blend_zero_weights)
  have len: "length (img ! i ! j) = c"
    using img ij by (rule rect3_pixel)
  have "map (\<lambda>k. astype_uint8 (blend_at img (real j) (real i) k)) [0..<c] = img ! i ! j"
    using map_nth [of "img ! i ! j"] by (simp add: b astype_uint8_u8_real len)
  then show ?thesis
    by (simp add: bilinear_px_eq [OF img pos])
qed

lemma astype_uint8_no_wrap:
  assumes "- 1 < v" "v < 256"
  shows "uint (astype_uint8 v) = py_int v \<and> 0 \<le> py_int v \<and> py_int v \<le> 255"
proof -
  have b: "0 \<le> py_int v \<and> py_int v \<le> 255"
  proof (cases "0 \<le> v")
    case True
    then have "0 \<le> \<lfloor>v\<rfloor>" "\<lfloor>v\<rfloor> < 256"
      using assms by (simp_all add: floor_less_iff)
    then show ?thesis using True by (simp add: py_int_def)
  next
    case False
    then have "\<lceil>v\<rceil> = 0"
      using assms(1) by (intro ceiling_unique) simp_all
    then show ?thesis using False by (simp add: py_int_def)
  qed
  then have "uint (astype_uint8 v) = py_int v"
    by (simp add: astype_uint8_def uint_word_of_int take_bit_eq_mod)
  with b show ?thesis by simp
qed

subsection \<open>Displacement field and sample coordinates\<close>

lemma rect_map_map: "rect h w a \<Longrightarrow> rect h w (map (map f) a)"
  by (auto simp: rect_def list_all_iff)

lemma nth_map_map:
  "rect h w a \<Longrightarrow> i < h \<Longrightarrow> j < w \<Longrightarrow> map (map f) a ! i ! j = f (a ! i ! j)"
  by (simp add: rect_length rect_nth)

lemma x_coords_rect: "rect h w (x_coords h w)"
  by (rule rectI) (auto simp: x_coords_def)

lemma y_coords_rect: "rect h w (y_coords h w)"
  by (rule rectI) (auto simp: y_coords_def)

lemma x_coords_nth: "i < h \<Longrightarrow> j < w \<Longrightarrow> x_coords h w ! i ! j = int j"
  by (simp add: x_coords_def)

lemma y_coords_nth: "i < h \<Longrightarrow> j < w \<Longrightarrow> y_coords h w ! i ! j = int i"
  by (simp add: y_coords_def)

lemma add_grid_rect:
  assumes "rect h w g" "rect h w d"
  shows "rect h w (add_grid g d)"
proof (rule rectI)
  show "length (add_grid g d) = h"
    using assms by (simp add: add_grid_def rect_length)
next
  fix r assume "r \<in> set (add_grid g d)"
  then obtain gr dr where m: "(gr, dr) \<in> set (zip g d)"
    and r: "r = map (\<lambda>(c, v). f64 (real_of_int c + v)) (zip gr dr)"
    by (auto simp: add_grid_def)
  from m have "gr \<in> set g" "dr \<in> set d"
    by (auto dest: set_zip_leftD set_zip_rightD)
  then have "length gr = w" "length dr = w"
    using assms by (auto dest: rect_row)
  then show "length r = w" using r by simp
qed

lemma add_grid_nth:
  assumes "rect h w g" "rect h w d" "i < h" "j < w"
  shows "add_grid g d ! i ! j = f64 (real_of_int (g ! i ! j) + d ! i ! j)"
  using assms by (simp add: add_grid_def rect_length rect_nth)

lemma clip_array_rect: "rect h w a \<Longrightarrow> rect h w (clip_array a lo hi)"
  unfolding clip_array_def by (rule rect_map_map)

lemma clip_array_nth:
  "rect h w a \<Longrightarrow> i < h \<Longrightarrow> j < w \<Longrightarrow> clip_array a lo hi ! i ! j = np_clip (a ! i ! j) lo hi"
  unfolding clip_array_def by (rule nth_map_map)

lemma displacement_rect:
  "rect h w depth_map \<Longrightarrow> rect h w (displacement p (depth_normalized depth_map) offset scale)"
  unfolding displacement_def depth_normalized_def by (intro rect_map_map)

lemma displacement_nth:
  assumes "rect h w depth_map" "i < h" "j < w"
  shows "displacement p (depth_normalized depth_map) offset scale ! i ! j
         = fl p (fl p (f32 (f32 (u8_real (depth_map ! i ! j) / 255) - 0.5) * fl p offset)
                 * fl p scale)"
proof -
  have "rect h w (depth_normalized depth_map)"
    using assms(1) unfolding depth_normalized_def by (rule rect_map_map)
  then have "displacement p (depth_normalized depth_map) offset scale ! i ! j
             = fl p (fl p (f32 (depth_normalized depth_map ! i ! j - 0.5) * fl p offset)
                     * fl p scale)"
    unfolding displacement_def using assms(2,3) by (rule nth_map_map)
  moreover have "depth_normalized depth_map ! i ! j = f32 (u8_real (depth_map ! i ! j) / 255)"
    unfolding depth_normalized_def using assms by (rule nth_map_map)
  ultimately show ?thesis by simp
qed

lemma displacement_field_nth:
  assumes "rect h w depth_map" "i < h" "j < w"
    and "displacement_field m depth_map offset_x offset_y movement_strength = (disp_x, disp_y)"
  shows "rect h w disp_x \<and> rect h w disp_y
       \<and> disp_x ! i ! j
           = fl (scalar_bits m)
               (fl (scalar_bits m)
                  (f32 (f32 (u8_real (depth_map ! i ! j) / 255) - 0.5)
                   * fl (scalar_bits m) offset_x)
                * fl (scalar_bits m) (f64 (movement_strength * 100)))
       \<and> disp_y ! i ! j
           = fl (scalar_bits m)
               (fl (scalar_bits m)
                  (f32 (f32 (u8_real (depth_map ! i ! j) / 255) - 0.5)
                   * fl (scalar_bits m) offset_y)
                * fl (scalar_bits m) (f64 (movement_strength * 100)))"
  using assms(4) displacement_rect [OF assms(1)] displacement_nth [OF assms(1-3)]
  by (auto simp: displacement_field_def Let_def)

lemma sample_coords_nth:
  assumes d: "rect h w depth_map" and pos: "0 < h" and ij: "i < h" "j < w"
    and df: "displacement_field m depth_map offset_x offset_y movement_strength = (disp_x, disp_y)"
    and sc: "sample_coords m depth_map offset_x offset_y movement_strength = (new_x, new_y)"
  shows "rect h w new_x \<and> rect h w new_y
       \<and> new_x ! i ! j = np_clip (f64 (real j + disp_x ! i ! j)) 0 (real w - 1)
       \<and> new_y ! i ! j = np_clip (f64 (real i + disp_y ! i ! j)) 0 (real h - 1)"
proof -
  have nr: "nrows depth_map = h" and nc: "ncols depth_map = w"
    using d pos by (simp_all add: rect_nrows rect_ncols)
  have rd: "rect h w disp_x" "rect h w disp_y"
    using displacement_field_nth [OF d ij df] by simp_all
  have nx: "new_x = clip_array (add_grid (x_coords h w) disp_x) 0 (real_of_int (int w - 1))"
    and ny: "new_y = clip_array (add_grid (y_coords h w) disp_y) 0 (real_of_int (int h - 1))"
    using sc by (simp_all add: sample_coords_def Let_def nr nc df)
  have rax: "rect h w (add_grid (x_coords h w) disp_x)"
    using x_coords_rect rd(1) by (rule add_grid_rect)
  have ray: "rect h w (add_grid (y_coords h w) disp_y)"
    using y_coords_rect rd(2) by (rule add_grid_rect)
  have "new_x ! i ! j = np_clip (f64 (real j + disp_x ! i ! j)) 0 (real w - 1)"
    using ij by (simp add: nx clip_array_nth [OF rax ij]
        add_grid_nth [OF x_coords_rect rd(1) ij] x_coords_nth)
  moreover have "new_y ! i ! j = np_clip (f64 (real i + disp_y ! i ! j)) 0 (real h - 1)"
    using ij by (simp add: ny clip_array_nth [OF ray ij]
        add_grid_nth [OF y_coords_rect rd(2) ij] y_coords_nth)
  ultimately show ?thesis
    using rax ray by (simp add: nx ny clip_array_rect)
qed

lemma sample_coords_rect:
  assumes d: "rect h w depth_map" and pos: "0 < h"
    and sc: "sample_coords m depth_map offset_x offset_y movement_strength = (new_x, new_y)"
  shows "rect h w new_x \<and> rect h w new_y"
proof -
  obtain disp_x disp_y where
    df: "displacement_field m depth_map offset_x offset_y movement_strength = (disp_x, disp_y)"
    by (cases "displacement_field m depth_map offset_x offset_y movement_strength")
  have nr: "nrows depth_map = h" and nc: "ncols depth_map = w"
    using d pos by (simp_all add: rect_nrows rect_ncols)
  have rd: "rect h w disp_x" "rect h w disp_y"
    using df displacement_rect [OF d] by (auto simp: displacement_field_def Let_def)
  have nx: "new_x = clip_array (add_grid (x_coords h w) disp_x) 0 (real_of_int (int w - 1))"
    and ny: "new_y = clip_array (add_grid (y_coords h w) disp_y) 0 (real_of_int (int h - 1))"
    using sc by (simp_all add: sample_coords_def Let_def nr nc df)
  show ?thesis
    unfolding nx ny
    using x_coords_rect y_coords_rect rd by (intro conjI clip_array_rect add_grid_rect)
qed

lemma reference_numpy_bits [simp]: "scalar_bits reference_numpy = 24"
  by (simp add: reference_numpy_def)

lemma displacement_field_example:
  "displacement_field reference_numpy [[0, 255]] 5 0 1 = ([[- 250, 250]], [[0, 0]])"
proof -
  have h: "f32 (- (1 / 2)) = - (1 / 2)" "f32 (1 / 2) = 1 / 2"
    using f32_dyadic [of "- 1" 1] f32_dyadic [of 1 1] by simp_all
  have s: "f64 100 = 100" "fl 24 100 = 100" "fl 24 5 = 5"
    using f64_of_int [of 100] fl_of_int [of 100 24] fl_of_int [of 5 24] by simp_all
  have p: "fl 24 (- (5 / 2)) = - (5 / 2)" "fl 24 (5 / 2) = 5 / 2"
    "fl 24 (- 250) = - 250" "fl 24 250 = 250"
    using fl_dyadic [of "- 5" 24 1] fl_dyadic [of 5 24 1] fl_of_int [of "- 250" 24]
      fl_of_int [of 250 24] by simp_all
  show ?thesis
    by (simp add: displacement_field_def displacement_def depth_normalized_def u8_real_def
        h s p)
qed

lemma sample_coords_example:
  "sample_coords reference_numpy [[0, 255]] 5 0 1 = ([[0, 1]], [[0, 0]])"
proof -
  have s: "f64 (- 250) = - 250" "f64 251 = 251"
    using f64_of_int [of "- 250"] f64_of_int [of 251] by simp_all
  show ?thesis
    by (simp add: sample_coords_def displacement_field_example nrows_def ncols_def x_coords_def
        y_coords_def add_grid_def clip_array_def np_clip_def upt_rec s)
qed

subsection \<open>Hole filler and frame generation\<close>

lemma hole_mask_rect: "rect h w result \<Longrightarrow> rect h w (hole_mask result)"
  unfolding hole_mask_def by (rule rect_map_map)

lemma hole_mask_nth:
  "rect h w result \<Longrightarrow> i < h \<Longrightarrow> j < w \<Longrightarrow>
   hole_mask result ! i ! j = list_all (\<lambda>c. c = 0) (result ! i ! j)"
  unfolding hole_mask_def by (rule nth_map_map)

lemma rect_same_lengths: "rect h w a \<Longrightarrow> rect h w b \<Longrightarrow> map length a = map length b"
  by (auto simp: rect_def list_all_length intro!: nth_equalityI)

lemma fill_holes_result:
  assumes lib: "cv2_contract lib" and im: "rect h w src_image" and res: "rect h w result"
  shows "\<exists>out. fill_holes lib src_image result = Inr out \<and> rect h w out
         \<and> (\<forall>i j. i < h \<and> j < w \<longrightarrow>
               out ! i ! j = (if list_all (\<lambda>c. c = 0) (result ! i ! j)
                              then GaussianBlur lib src_image ! i ! j else result ! i ! j))"
proof (cases "list_ex (list_ex id) (hole_mask result)")
  case False
  have "\<And>i j. i < h \<Longrightarrow> j < w \<Longrightarrow> \<not> list_all (\<lambda>c. c = 0) (result ! i ! j)"
  proof
    fix i j assume ij: "i < h" "j < w" and z: "list_all (\<lambda>c. c = 0) (result ! i ! j)"
    have m: "rect h w (hole_mask result)" using res by (rule hole_mask_rect)
    have "hole_mask result ! i ! j" using hole_mask_nth [OF res ij] z by simp
    moreover have "hole_mask result ! i \<in> set (hole_mask result)"
      using rect_length [OF m] ij by simp
    moreover have "hole_mask result ! i ! j \<in> set (hole_mask result ! i)"
      using rect_nth [OF m ij(1)] ij by simp
    ultimately have "list_ex (list_ex id) (hole_mask result)"
      unfolding list_ex_iff by (metis id_apply)
    with False show False by simp
  qed
  then show ?thesis
    using False res by (simp add: fill_holes_def Let_def)
next
  case True
  define mask where "mask = hole_mask result"
  define background where "background = GaussianBlur lib src_image"
  have m: "rect h w mask" unfolding mask_def using res by (rule hole_mask_rect)
  have b: "rect h w background"
    unfolding background_def using lib im by (rule cv2_contract_blur)
  have sh: "map length background = map length mask"
    using b m by (rule rect_same_lengths)
  define out where "out = map (\<lambda>(rrow, mrow, brow).
                               map (\<lambda>(r, m, b). if m then b else r) (zip rrow (zip mrow brow)))
                            (zip result (zip mask background))"
  have eq: "fill_holes lib src_image result = Inr out"
    using True sh by (simp add: fill_holes_def Let_def mask_def background_def out_def)
  have len: "length result = h" "length mask = h" "length background = h"
    using res m b by (simp_all add: rect_length)
  have row: "\<And>i. i < h \<Longrightarrow> length (result ! i) = w \<and> length (mask ! i) = w
      \<and> length (background ! i) = w"
    using res m b by (simp add: rect_nth)
  have ro: "rect h w out"
    unfolding rect_def list_all_length out_def using len row by simp
  have "\<And>i j. i < h \<Longrightarrow> j < w \<Longrightarrow>
      out ! i ! j = (if list_all (\<lambda>c. c = 0) (result ! i ! j)
                     then background ! i ! j else result ! i ! j)"
    using len row hole_mask_nth [OF res] by (simp add: out_def mask_def)
  then show ?thesis
    using eq ro by (simp add: background_def)
qed

lemma generate_parallax_frame_result:
  assumes lib: "cv2_contract lib" and im: "rect h w src_image" and pos: "0 < h" "0 < w"
    and d: "rect h w depth_map"
  shows "\<exists>result frame.
           bilinear_interpolate src_image
             (fst (sample_coords m depth_map offset_x offset_y movement_strength))
             (snd (sample_coords m depth_map offset_x offset_y movement_strength)) = Inr result
         \<and> rect h w result
         \<and> generate_parallax_frame lib m src_image depth_map offset_x offset_y movement_strength
             = Inr frame
         \<and> fill_holes lib src_image result = Inr frame
         \<and> rect h w frame"
proof -
  obtain new_x new_y where
    sc: "sample_coords m depth_map offset_x offset_y movement_strength = (new_x, new_y)"
    by (cases "sample_coords m depth_map offset_x offset_y movement_strength")
  have "rect h w new_x" "rect h w new_y"
    using sample_coords_rect [OF d pos(1) sc] by simp_all
  then obtain result where r: "bilinear_interpolate src_image new_x new_y = Inr result"
    "rect h w result"
    using bilinear_interpolate_rect [OF im pos] by blast
  obtain frame where f: "fill_holes lib src_image result = Inr frame" "rect h w frame"
    using fill_holes_result [OF lib im r(2)] by blast
  have "generate_parallax_frame lib m src_image depth_map offset_x offset_y movement_strength
        = Inr frame"
    by (simp add: generate_parallax_frame_def sc r(1) f(1))
  then show ?thesis
    using r f sc by simp
qed

lemma reference_frame_example:
  "generate_parallax_frame reference_cv2 reference_numpy [[[0, 0, 0], [9, 9, 9]]] [[128, 128]]
     0 0 (1 / 10)
   = Inr [[[0, 0, 0], [9, 9, 9]]]"
proof -
  have sc: "sample_coords reference_numpy [[128, 128]] 0 0 (1 / 10) = ([[0, 1]], [[0, 0]])"
    by (simp add: sample_coords_def displacement_field_def displacement_def
        depth_normalized_def nrows_def ncols_def x_coords_def y_coords_def
        add_grid_def clip_array_def np_clip_def upt_rec)
  have r: "rect3 1 2 3 [[[0, 0, 0], [9, 9, 9 :: u8]]]"
    by (simp add: rect3_def rect_def)
  have p0: "bilinear_px [[[0, 0, 0], [9, 9, 9]]] 0 0 = Inr [0, 0, 0]"
    using bilinear_px_on_grid [OF r, of 0 0] by simp
  have p1: "bilinear_px [[[0, 0, 0], [9, 9, 9]]] 1 0 = Inr [9, 9, 9]"
    using bilinear_px_on_grid [OF r, of 0 1] by simp
  have b: "bilinear_interpolate [[[0, 0, 0], [9, 9, 9]]] [[0, 1]] [[0, 0]]
          = Inr [[[0, 0, 0], [9, 9, 9]]]"
    by (simp add: bilinear_interpolate_def p0 p1)
  show ?thesis
    by (simp add: generate_parallax_frame_def sc b fill_holes_def hole_mask_def
        reference_cv2_def)
qed

subsection \<open>Frame loop\<close>

lemma frame_loop_all_Inr:
  assumes "\<And>i. i \<in> set idxs \<Longrightarrow> \<exists>f. body i = Inr f"
  shows "frame_loop body idxs = Inr (map (\<lambda>i. (i, projr (body i))) idxs)"
  using assms
proof (induction idxs)
  case Nil
  then show ?case by simp
next
  case (Cons a idxs)
  obtain f where f: "body a = Inr f" using Cons.prems by auto
  have "frame_loop body idxs = Inr (map (\<lambda>i. (i, projr (body i))) idxs)"
    using Cons by simp
  then show ?case by (simp add: f)
qed

lemma py_truediv_Inr: "b \<noteq> 0 \<Longrightarrow> py_truediv a b = Inr (f64 (real_of_int a / real_of_int b))"
  by (simp add: py_truediv_def)

lemma frame_progress_Inr:
  "frame_progress n i = Inr (if 1 < n then f64 (real_of_int i / real_of_int (n - 1)) else 0)"
  by (simp add: frame_progress_def py_truediv_def)

lemma render_frame_unfold:
  "render_frame lib m ir dr camera_movement movement_range n frame_idx
   = generate_parallax_frame lib m ir dr
       (fst (camera_offset m (projr (frame_progress n frame_idx)) movement_range
               camera_movement))
       (snd (camera_offset m (projr (frame_progress n frame_idx)) movement_range
               camera_movement))
       camera_movement"
  by (simp add: render_frame_def frame_progress_Inr split_def Let_def)

lemma render_frame_Inr:
  assumes lib: "cv2_contract lib" and im: "rect h w ir" and pos: "0 < h" "0 < w"
    and d: "rect h w dr"
  shows "\<exists>f. render_frame lib m ir dr camera_movement movement_range n frame_idx = Inr f
             \<and> rect h w f"
  unfolding render_frame_unfold
  using generate_parallax_frame_result [OF lib im pos d] by blast

lemma create_parallax_animation_frames:
  assumes lib: "cv2_contract lib"
    and size: "0 < width self" "0 < height self"
    and ir: "resize_with_aspect_ratio lib (Color im) (width self) (height self) = Inr (Color ir)"
    and dr: "resize_with_aspect_ratio lib (Gray dm) (width self) (height self) = Inr (Gray dr)"
  shows "rect (nat (height self)) (nat (width self)) ir
       \<and> rect (nat (height self)) (nat (width self)) dr
       \<and> create_parallax_animation lib m self (Some im) (Some dm)
             camera_movement movement_range duration
           = Inr (map (\<lambda>i. (i, projr (render_frame lib m ir dr camera_movement movement_range
                                          (total_frames self duration) i)))
                      [0..total_frames self duration - 1])"
proof -
  have ri: "rect (nat (height self)) (nat (width self)) ir"
    using resize_color_shape [OF lib size ir] by simp
  have rd: "rect (nat (height self)) (nat (width self)) dr"
    using resize_gray_shape [OF lib size dr] by simp
  have pos: "0 < nat (height self)" "0 < nat (width self)"
    using size by simp_all
  have "frame_loop (render_frame lib m ir dr camera_movement movement_range
                      (total_frames self duration)) [0..total_frames self duration - 1]
        = Inr (map (\<lambda>i. (i, projr (render_frame lib m ir dr camera_movement movement_range
                                            (total_frames self duration) i)))
                        [0..total_frames self duration - 1])"
    using render_frame_Inr [OF lib ri pos rd]
    by (intro frame_loop_all_Inr) blast
  then have "create_parallax_animation lib m self (Some im) (Some dm)
               camera_movement movement_range duration
             = Inr (map (\<lambda>i. (i, projr (render_frame lib m ir dr camera_movement movement_range
                                            (total_frames self duration) i)))
                        [0..total_frames self duration - 1])"
    by (simp add: create_parallax_animation_def Let_def ir dr)
  with ri rd show ?thesis by blast
qed

lemma upto_from_zero_nth: "k < nat n \<Longrightarrow> [0..n - 1] ! k = int k"
  by (simp add: nth_upto)

lemma upto_from_zero_length: "length [0..n - 1] = nat n"
  by simp

section \<open>Verified properties\<close>

subsection \<open>Frame count (C2)\<close>




subsection \<open>Aspect-fit resampler (C3)\<close>

text \<open>
  Claim C3 fails in the code for a source of \<open>49 \<times> 49\<close> pixels fitted to a target of \<open>1 \<times> 1\<close>:
  the \<^verbatim>\<open>float\<close> quotient \<open>1 / 49\<close> is rounded down, 49 times the quotient rounds to the \<^verbatim>\<open>float\<close>
  just below 1, and \<^verbatim>\<open>int\<close> truncates it to 0. The scaled size is \<open>(0, 0)\<close>, which \<^verbatim>\<open>cv2.resize\<close>
  rejects, so neither the image nor the depth map is fitted, whatever the pixel values are.
\<close>

theorem aspect_fit_raises_at_49_to_1:
  "scaled_size 49 49 1 1 = (0, 0)
   \<and> resize_with_aspect_ratio lib (Color (replicate 49 (replicate 49 px))) 1 1 = Inl Cv2Error
   \<and> resize_with_aspect_ratio lib (Gray (replicate 49 (replicate 49 d))) 1 1 = Inl Cv2Error"
proof -
  have q: "f64 (1 / 49) = 5882252574524729 / 288230376151711744"
    unfolding f64_def by (subst fl_eval [where k = "- 6"]) (simp_all add: round_even_def)
  have p: "f64 (288230376151711721 / 288230376151711744)
           = 9007199254740991 / 9007199254740992"
    unfolding f64_def by (subst fl_eval [where k = "- 1"]) (simp_all add: round_even_def)
  have f: "\<lfloor>9007199254740991 / 9007199254740992 :: real\<rfloor> = 0"
    by (rule floor_unique) simp_all
  have s: "scaled_size 49 49 1 1 = (0, 0)"
    by (simp add: scaled_size_def Let_def q p f py_int_def)
  have n: "nrows (replicate 49 (replicate 49 z)) = 49" "ncols (replicate 49 (replicate 49 z)) = 49"
    for z :: 'z
    by (simp_all add: nrows_def ncols_def numeral_eq_Suc)
  show ?thesis
    by (simp add: s resize_with_aspect_ratio_def n)
qed

subsection \<open>Rounding of the bilinear blend (C4)\<close>

text \<open>
  Claim C4, as the code has it: for sample coordinates inside the image, each integer
  output channel is the floating-point blend of the four corner values (\<open>blend_at\<close>, computed
  in \<^verbatim>\<open>float64\<close>) truncated to the integer below it (\<^verbatim>\<open>astype\<close> truncates; the blend is not
  negative, so this is the floor).
  The output is at most the blend and less than one below it; it equals the rounded blend
  when the fractional part of the blend is below 1/2 and is one less than the rounded
  blend otherwise.
\<close>

theorem bilinear_cast_truncates:
  assumes img: "rect3 h w c img" and pos: "0 < h" "0 < w"
    and shape: "map length x = map length y"
    and i: "i < length x" and j: "j < length (x ! i)" and k: "k < c"
    and xr: "0 \<le> x ! i ! j" "x ! i ! j \<le> real w - 1"
    and yr: "0 \<le> y ! i ! j" "y ! i ! j \<le> real h - 1"
  shows "\<exists>out. bilinear_interpolate img x y = Inr out
         \<and> int (unat (out ! i ! j ! k)) = \<lfloor>blend_at img (x ! i ! j) (y ! i ! j) k\<rfloor>
         \<and> u8_real (out ! i ! j ! k) \<le> blend_at img (x ! i ! j) (y ! i ! j) k
         \<and> blend_at img (x ! i ! j) (y ! i ! j) k < u8_real (out ! i ! j ! k) + 1
         \<and> int (unat (out ! i ! j ! k))
             = (if frac (blend_at img (x ! i ! j) (y ! i ! j) k) < 1 / 2
                then round (blend_at img (x ! i ! j) (y ! i ! j) k)
                else round (blend_at img (x ! i ! j) (y ! i ! j) k) - 1)"
proof -
  have r: "rect h w img" using img by (rule rect3_rect)
  define v where "v = blend_at img (x ! i ! j) (y ! i ! j) k"
  obtain wx wy where w: "blend_weights img (x ! i ! j) (y ! i ! j) = (wx, wy)"
    "0 \<le> wx" "wx \<le> 1" "0 \<le> wy" "wy \<le> 1"
    using blend_weights_unit [OF r pos xr yr] by blast
  have conv: "0 \<le> v" "v < 256"
    using blend_at_range [OF w refl, of k] by (simp_all add: v_def)
  obtain out where out: "bilinear_interpolate img x y = Inr out"
    "out ! i ! j ! k = astype_uint8 v"
    using bilinear_interpolate_channel [OF img pos shape i j k] unfolding v_def by blast
  have fl: "uint (astype_uint8 v) = \<lfloor>v\<rfloor>" "u8_real (astype_uint8 v) = real_of_int \<lfloor>v\<rfloor>"
    using conv by (simp_all add: astype_uint8_in_range)
  have u: "int (unat (astype_uint8 v)) = \<lfloor>v\<rfloor>"
    using fl(1) by simp
  have rnd: "\<lfloor>v\<rfloor> = (if frac v < 1 / 2 then round v else round v - 1)"
  proof (cases "frac v < 1 / 2")
    case True
    then have "real_of_int \<lfloor>v\<rfloor> \<le> v + 1 / 2" "v + 1 / 2 < real_of_int \<lfloor>v\<rfloor> + 1"
      unfolding frac_def by linarith+
    then have "\<lfloor>v + 1 / 2\<rfloor> = \<lfloor>v\<rfloor>" by (rule floor_unique)
    with True show ?thesis by (simp add: round_def)
  next
    case False
    then have "real_of_int (\<lfloor>v\<rfloor> + 1) \<le> v + 1 / 2"
      "v + 1 / 2 < real_of_int (\<lfloor>v\<rfloor> + 1) + 1"
      unfolding frac_def by (simp_all, linarith+)
    then have "\<lfloor>v + 1 / 2\<rfloor> = \<lfloor>v\<rfloor> + 1" by (rule floor_unique)
    with False show ?thesis by (simp add: round_def)
  qed
  have "real_of_int \<lfloor>v\<rfloor> \<le> v" "v < real_of_int \<lfloor>v\<rfloor> + 1"
    by linarith+
  then show ?thesis
    using out u fl(2) rnd unfolding v_def by auto
qed

text \<open>Witness for C4: a \<open>1 \<times> 2\<close> image sampled three quarters of the way between its pixels.\<close>

theorem bilinear_cast_truncates_witness:
  "rect3 1 2 3 [[[0, 0, 0], [1, 1, 1]]] \<and> (0::nat) < 1 \<and> (0::nat) < 2
   \<and> map length [[3 / 4 :: real]] = map length [[0 :: real]]
   \<and> (0::nat) < length [[3 / 4 :: real]] \<and> (0::nat) < length ([[3 / 4 :: real]] ! 0)
   \<and> (0::nat) < 3
   \<and> (0::real) \<le> [[3 / 4]] ! 0 ! 0 \<and> [[3 / 4]] ! 0 ! 0 \<le> real 2 - 1
   \<and> (0::real) \<le> [[0]] ! 0 ! 0 \<and> [[0 :: real]] ! 0 ! 0 \<le> real 1 - 1
   \<and> (\<exists>out. bilinear_interpolate [[[0, 0, 0], [1, 1, 1]]] [[3 / 4]] [[0]] = Inr out
         \<and> int (unat (out ! 0 ! 0 ! 0)) = \<lfloor>blend_at [[[0, 0, 0], [1, 1, 1]]] (3 / 4) 0 0\<rfloor>
         \<and> u8_real (out ! 0 ! 0 ! 0) \<le> blend_at [[[0, 0, 0], [1, 1, 1]]] (3 / 4) 0 0
         \<and> blend_at [[[0, 0, 0], [1, 1, 1]]] (3 / 4) 0 0 < u8_real (out ! 0 ! 0 ! 0) + 1)"
proof -
  have r: "rect3 1 2 3 [[[0, 0, 0], [1, 1, 1 :: u8]]]"
    by (simp add: rect3_def rect_def)
  obtain out where
    "bilinear_interpolate [[[0, 0, 0], [1, 1, 1]]] [[3 / 4]] [[0]] = Inr out
     \<and> int (unat (out ! 0 ! 0 ! 0)) = \<lfloor>blend_at [[[0, 0, 0], [1, 1, 1]]] ([[3 / 4]] ! 0 ! 0) ([[0]] ! 0 ! 0) 0\<rfloor>
     \<and> u8_real (out ! 0 ! 0 ! 0) \<le> blend_at [[[0, 0, 0], [1, 1, 1]]] ([[3 / 4]] ! 0 ! 0) ([[0]] ! 0 ! 0) 0
     \<and> blend_at [[[0, 0, 0], [1, 1, 1]]] ([[3 / 4]] ! 0 ! 0) ([[0]] ! 0 ! 0) 0 < u8_real (out ! 0 ! 0 ! 0) + 1"
    using bilinear_cast_truncates [OF r, of "[[3 / 4]]" "[[0]]" 0 0 0] by auto
  then show ?thesis using r by auto
qed

text \<open>
  Counterexample to C4 as stated: between a pixel of value 0 and a pixel of value 1, at
  \<open>x = 0.75\<close>, the blend is 0.75 in every channel (every operation is exact in \<^verbatim>\<open>float64\<close>);
  rounding to nearest gives 1, the code returns 0.
\<close>

theorem bilinear_rounding_counterexample:
  "bilinear_interpolate [[[0, 0, 0], [1, 1, 1]]] [[3 / 4]] [[0]] = Inr [[[0, 0, 0]]]
   \<and> blend_at [[[0, 0, 0], [1, 1, 1]]] (3 / 4) 0 0 = 3 / 4
   \<and> round (3 / 4 :: real) = 1"
proof -
  have ci: "corner_indices [[[0, 0, 0], [1, 1, 1]]] (3 / 4) 0 = (0, 1, 0, 0)"
    by (simp add: corner_indices_def nrows_def ncols_def np_clip_def)
  have q: "f64 (3 / 4) = 3 / 4" "f64 (1 / 4) = 1 / 4"
    using f64_dyadic [of 3 2] f64_dyadic [of 1 2] by simp_all
  have b: "blend_at [[[0, 0, 0], [1, 1, 1]]] (3 / 4) 0 0 = 3 / 4"
    by (simp add: blend_at_def blend_weights_def corner_values_def ci blend_def u8_real_def q)
  have px: "bilinear_px [[[0, 0, 0], [1, 1, 1]]] (3 / 4) 0 = Inr [0, 0, 0]"
    by (simp add: bilinear_px_def ci img_at_def nrows_def ncols_def blend_def u8_real_def
        astype_uint8_def py_int_def q)
  have "bilinear_interpolate [[[0, 0, 0], [1, 1, 1]]] [[3 / 4]] [[0]] = Inr [[[0, 0, 0]]]"
    by (simp add: bilinear_interpolate_def px)
  moreover have "round (3 / 4 :: real) = 1"
    by (simp add: round_def)
  ultimately show ?thesis using b by simp
qed

subsection \<open>The bilinear resampler on grid points (C9)\<close>

text \<open>
  Claim C9: sampling an image of shape \<open>(h, w, c)\<close> at coordinate arrays whose entries are
  integer grid positions inside the image returns, at every entry, exactly the pixel of
  the image at that position; sampled at the identity grid, the resampler returns the
  image itself. On the grid both weights are 0 and every floating-point operation of the
  blend is exact.
\<close>

theorem bilinear_identity_on_grid:
  assumes img: "rect3 h w c img" and pos: "0 < h" "0 < w"
    and shape: "map length xi = map length yi"
    and xb: "list_all (list_all (\<lambda>j. j < w)) xi"
    and yb: "list_all (list_all (\<lambda>i. i < h)) yi"
  shows "bilinear_interpolate img (map (map real) xi) (map (map real) yi)
           = Inr (map (\<lambda>(xr, yr). map (\<lambda>(j, i). img ! i ! j) (zip xr yr)) (zip xi yi))
       \<and> bilinear_interpolate img (map (map real_of_int) (x_coords h w))
             (map (map real_of_int) (y_coords h w)) = Inr img"
proof
  have r: "rect h w img" using img by (rule rect3_rect)
  have sh: "map length (map (map real) xi) = map length (map (map real) yi)"
    using shape by (simp add: comp_def)
  have cell: "\<And>xr yr. (xr, yr) \<in> set (zip xi yi) \<Longrightarrow>
      map (\<lambda>(xv, yv). projr (bilinear_px img xv yv)) (zip (map real xr) (map real yr))
      = map (\<lambda>(j, i). img ! i ! j) (zip xr yr)"
  proof -
    fix xr yr assume m: "(xr, yr) \<in> set (zip xi yi)"
    then have "xr \<in> set xi" "yr \<in> set yi"
      by (auto dest: set_zip_leftD set_zip_rightD)
    then have b: "\<And>j. j \<in> set xr \<Longrightarrow> j < w" "\<And>i. i \<in> set yr \<Longrightarrow> i < h"
      using xb yb by (auto simp: list_all_iff)
    have "\<And>j i. (j, i) \<in> set (zip xr yr) \<Longrightarrow>
        projr (bilinear_px img (real j) (real i)) = img ! i ! j"
    proof -
      fix j i assume "(j, i) \<in> set (zip xr yr)"
      then have "j < w" "i < h"
        using b by (auto dest: set_zip_leftD set_zip_rightD)
      then show "projr (bilinear_px img (real j) (real i)) = img ! i ! j"
        by (simp add: bilinear_px_on_grid [OF img pos])
    qed
    then show "map (\<lambda>(xv, yv). projr (bilinear_px img xv yv)) (zip (map real xr) (map real yr))
      = map (\<lambda>(j, i). img ! i ! j) (zip xr yr)"
      by (auto simp: zip_map_map)
  qed
  show "bilinear_interpolate img (map (map real) xi) (map (map real) yi)
           = Inr (map (\<lambda>(xr, yr). map (\<lambda>(j, i). img ! i ! j) (zip xr yr)) (zip xi yi))"
    using cell by (auto simp: bilinear_interpolate_Inr [OF r pos sh] zip_map_map)
next
  have r: "rect h w img" using img by (rule rect3_rect)
  let ?X = "map (map real_of_int) (x_coords h w)"
  let ?Y = "map (map real_of_int) (y_coords h w)"
  have rx: "rect h w ?X" by (rule rectI) (auto simp: x_coords_def)
  have ry: "rect h w ?Y" by (rule rectI) (auto simp: y_coords_def)
  have sh: "map length ?X = map length ?Y"
    using rx ry by (auto simp: rect_def list_all_length intro!: nth_equalityI)
  have xv: "\<And>i j. i < h \<Longrightarrow> j < w \<Longrightarrow> ?X ! i ! j = real j" by (simp add: x_coords_def)
  have yv: "\<And>i j. i < h \<Longrightarrow> j < w \<Longrightarrow> ?Y ! i ! j = real i" by (simp add: y_coords_def)
  obtain out where out: "bilinear_interpolate img ?X ?Y = Inr out" and ro: "rect h w out"
    using bilinear_interpolate_rect [OF r pos rx ry] by blast
  have "out = img"
  proof (rule nth_equalityI)
    show "length out = length img"
      using rect_length [OF ro] rect_length [OF r] by simp
  next
    fix i assume "i < length out"
    then have i: "i < h" using rect_length [OF ro] by simp
    show "out ! i = img ! i"
    proof (rule nth_equalityI)
      show "length (out ! i) = length (img ! i)"
        using rect_nth [OF ro i] rect_nth [OF r i] by simp
    next
      fix j assume "j < length (out ! i)"
      then have j: "j < w" using rect_nth [OF ro i] by simp
      have i': "i < length ?X" using rect_length [OF rx] i by simp
      have j': "j < length (?X ! i)" using rect_nth [OF rx i] j by simp
      obtain o2 where o2: "bilinear_interpolate img ?X ?Y = Inr o2"
        "o2 ! i ! j = projr (bilinear_px img (?X ! i ! j) (?Y ! i ! j))"
        using bilinear_interpolate_nth [OF r pos sh i' j'] by blast
      have "o2 = out" using o2(1) out by simp
      then show "out ! i ! j = img ! i ! j"
        using o2(2) xv [OF i j] yv [OF i j] bilinear_px_on_grid [OF img pos i j] by simp
    qed
  qed
  with out show "bilinear_interpolate img ?X ?Y = Inr img" by simp
qed

text \<open>Witness for C9: a \<open>2 \<times> 2\<close> image sampled at two grid points and at the identity grid.\<close>

theorem bilinear_identity_on_grid_witness:
  "rect3 2 2 3 [[[1, 2, 3], [4, 5, 6]], [[7, 8, 9], [10, 11, 12]]]
   \<and> (0::nat) < 2 \<and> (0::nat) < 2
   \<and> map length [[1, 0::nat]] = map length [[0, 1::nat]]
   \<and> list_all (list_all (\<lambda>j. j < 2)) [[1, 0::nat]]
   \<and> list_all (list_all (\<lambda>i. i < 2)) [[0, 1::nat]]
   \<and> bilinear_interpolate [[[1, 2, 3], [4, 5, 6]], [[7, 8, 9], [10, 11, 12]]]
         (map (map real) [[1, 0]]) (map (map real) [[0, 1]])
       = Inr [[[4, 5, 6], [7, 8, 9]]]
   \<and> bilinear_interpolate [[[1, 2, 3], [4, 5, 6]], [[7, 8, 9], [10, 11, 12]]]
         (map (map real_of_int) (x_coords 2 2)) (map (map real_of_int) (y_coords 2 2))
       = Inr [[[1, 2, 3], [4, 5, 6]], [[7, 8, 9], [10, 11, 12]]]"
  using bilinear_identity_on_grid
    [of 2 2 3 "[[[1, 2, 3], [4, 5, 6]], [[7, 8, 9], [10, 11, 12]]]" "[[1, 0]]" "[[0, 1]]"]
  by (simp add: rect3_def rect_def)

subsection \<open>Every pixel access of a frame is in bounds (C5)\<close>

text \<open>
  Claim C5: for every depth map and every camera offset, the sample coordinates of a frame
  are \<open>x + dx\<close> and \<open>y + dy\<close> (\<^verbatim>\<open>float64\<close> sums) clamped to \<open>[0, w-1]\<close> and \<open>[0, h-1]\<close>; the four
  corner indices the
  bilinear resampler forms from them lie inside the image, each of the four pixel reads
  succeeds, and the resampling of the frame as a whole raises no \<^verbatim>\<open>IndexError\<close>.
\<close>

theorem frame_sampling_in_bounds:
  assumes d: "rect h w depth_map" and dpos: "0 < h" "0 < w"
    and img: "rect hi wi img" and ipos: "0 < hi" "0 < wi"
    and df: "displacement_field m depth_map offset_x offset_y movement_strength = (disp_x, disp_y)"
    and sc: "sample_coords m depth_map offset_x offset_y movement_strength = (new_x, new_y)"
  shows "(\<forall>i j. i < h \<and> j < w \<longrightarrow>
            new_x ! i ! j = np_clip (f64 (real j + disp_x ! i ! j)) 0 (real w - 1)
          \<and> new_y ! i ! j = np_clip (f64 (real i + disp_y ! i ! j)) 0 (real h - 1)
          \<and> 0 \<le> new_x ! i ! j \<and> new_x ! i ! j \<le> real w - 1
          \<and> 0 \<le> new_y ! i ! j \<and> new_y ! i ! j \<le> real h - 1
          \<and> (\<exists>x0 x1 y0 y1.
                corner_indices img (new_x ! i ! j) (new_y ! i ! j) = (x0, x1, y0, y1)
              \<and> 0 \<le> x0 \<and> x0 \<le> int wi - 1 \<and> 0 \<le> x1 \<and> x1 \<le> int wi - 1
              \<and> 0 \<le> y0 \<and> y0 \<le> int hi - 1 \<and> 0 \<le> y1 \<and> y1 \<le> int hi - 1
              \<and> img_at img y0 x0 = Inr (img ! nat y0 ! nat x0)
              \<and> img_at img y0 x1 = Inr (img ! nat y0 ! nat x1)
              \<and> img_at img y1 x0 = Inr (img ! nat y1 ! nat x0)
              \<and> img_at img y1 x1 = Inr (img ! nat y1 ! nat x1)))
       \<and> (\<exists>out. bilinear_interpolate img new_x new_y = Inr out \<and> rect h w out)"
proof (intro conjI allI impI)
  fix i j assume "i < h \<and> j < w"
  then have ij: "i < h" "j < w" by simp_all
  note s = sample_coords_nth [OF d dpos(1) ij df sc]
  have wb: "(0::real) \<le> real w - 1" and hb: "(0::real) \<le> real h - 1"
    using dpos by simp_all
  show "new_x ! i ! j = np_clip (f64 (real j + disp_x ! i ! j)) 0 (real w - 1)"
    "new_y ! i ! j = np_clip (f64 (real i + disp_y ! i ! j)) 0 (real h - 1)"
    using s by simp_all
  then show "0 \<le> new_x ! i ! j" "new_x ! i ! j \<le> real w - 1"
    "0 \<le> new_y ! i ! j" "new_y ! i ! j \<le> real h - 1"
    using np_clip_bounds [OF wb] np_clip_bounds [OF hb] by simp_all
  obtain x0 x1 y0 y1 where
    ci: "corner_indices img (new_x ! i ! j) (new_y ! i ! j) = (x0, x1, y0, y1)"
    by (cases "corner_indices img (new_x ! i ! j) (new_y ! i ! j)") auto
  note b = corner_indices_bounds [OF img ipos ci]
  have "img_at img y0 x0 = Inr (img ! nat y0 ! nat x0)"
    "img_at img y0 x1 = Inr (img ! nat y0 ! nat x1)"
    "img_at img y1 x0 = Inr (img ! nat y1 ! nat x0)"
    "img_at img y1 x1 = Inr (img ! nat y1 ! nat x1)"
    using b img ipos by (simp_all add: img_at_in)
  then show "\<exists>x0 x1 y0 y1.
                corner_indices img (new_x ! i ! j) (new_y ! i ! j) = (x0, x1, y0, y1)
              \<and> 0 \<le> x0 \<and> x0 \<le> int wi - 1 \<and> 0 \<le> x1 \<and> x1 \<le> int wi - 1
              \<and> 0 \<le> y0 \<and> y0 \<le> int hi - 1 \<and> 0 \<le> y1 \<and> y1 \<le> int hi - 1
              \<and> img_at img y0 x0 = Inr (img ! nat y0 ! nat x0)
              \<and> img_at img y0 x1 = Inr (img ! nat y0 ! nat x1)
              \<and> img_at img y1 x0 = Inr (img ! nat y1 ! nat x0)
              \<and> img_at img y1 x1 = Inr (img ! nat y1 ! nat x1)"
    using ci b by auto
next
  have "rect h w new_x" "rect h w new_y"
    using sample_coords_rect [OF d dpos(1) sc] by simp_all
  then show "\<exists>out. bilinear_interpolate img new_x new_y = Inr out \<and> rect h w out"
    by (rule bilinear_interpolate_rect [OF img ipos])
qed

text \<open>
  Witness for C5: a \<open>1 \<times> 2\<close> depth map with the farthest and the nearest depth and a camera
  offset that pushes both sample positions far outside the image before clamping.
\<close>

theorem frame_sampling_in_bounds_witness:
  "rect 1 2 [[0, 255 :: u8]] \<and> (0::nat) < 1 \<and> (0::nat) < 2
   \<and> rect 1 2 [[[1, 2, 3], [4, 5, 6 :: u8]]] \<and> (0::nat) < 1 \<and> (0::nat) < 2
   \<and> displacement_field reference_numpy [[0, 255]] 5 0 1 = ([[- 250, 250]], [[0, 0]])
   \<and> sample_coords reference_numpy [[0, 255]] 5 0 1 = ([[0, 1]], [[0, 0]])
   \<and> (0::real) \<le> [[0, 1]] ! 0 ! 1 \<and> [[0, 1 :: real]] ! 0 ! 1 \<le> real 2 - 1
   \<and> (\<exists>out. bilinear_interpolate [[[1, 2, 3], [4, 5, 6]]] [[0, 1]] [[0, 0]] = Inr out
          \<and> rect 1 2 out)"
proof -
  have d: "rect 1 2 [[0, 255 :: u8]]" by (simp add: rect_def)
  have i: "rect 1 2 [[[1, 2, 3], [4, 5, 6 :: u8]]]" by (simp add: rect_def)
  note t = frame_sampling_in_bounds [OF d _ _ i _ _ displacement_field_example sample_coords_example]
  have "\<exists>out. bilinear_interpolate [[[1, 2, 3], [4, 5, 6]]] [[0, 1]] [[0, 0]] = Inr out
          \<and> rect 1 2 out"
    using t by simp
  then show ?thesis
    using d i displacement_field_example sample_coords_example by simp
qed

subsection \<open>Hole filler (C8)\<close>

text \<open>
  Claim C8: a frame is the sampled image with the hole filler applied. In the frame, a
  pixel whose channels are all 0 occurs only where the blurred copy of the source image
  is all 0 as well; pixels of the sampled image that are not all 0 are left as they are.
\<close>

theorem filled_frame_black_only_where_background_black:
  assumes lib: "cv2_contract lib" and im: "rect h w src_image" and pos: "0 < h" "0 < w"
    and d: "rect h w depth_map"
  shows "\<exists>result frame.
           bilinear_interpolate src_image
             (fst (sample_coords m depth_map offset_x offset_y movement_strength))
             (snd (sample_coords m depth_map offset_x offset_y movement_strength)) = Inr result
         \<and> fill_holes lib src_image result = Inr frame
         \<and> generate_parallax_frame lib m src_image depth_map offset_x offset_y movement_strength
             = Inr frame
         \<and> rect h w frame
         \<and> (\<forall>i j. i < h \<and> j < w \<and> list_all (\<lambda>c. c = 0) (frame ! i ! j) \<longrightarrow>
               list_all (\<lambda>c. c = 0) (GaussianBlur lib src_image ! i ! j))
         \<and> (\<forall>i j. i < h \<and> j < w \<and> \<not> list_all (\<lambda>c. c = 0) (result ! i ! j) \<longrightarrow>
               frame ! i ! j = result ! i ! j)"
proof -
  obtain result frame where r:
    "bilinear_interpolate src_image
       (fst (sample_coords m depth_map offset_x offset_y movement_strength))
       (snd (sample_coords m depth_map offset_x offset_y movement_strength)) = Inr result"
    "rect h w result"
    "generate_parallax_frame lib m src_image depth_map offset_x offset_y movement_strength
       = Inr frame"
    "fill_holes lib src_image result = Inr frame"
    "rect h w frame"
    using generate_parallax_frame_result [OF lib im pos d] by blast
  obtain out where o: "fill_holes lib src_image result = Inr out"
    "\<forall>i j. i < h \<and> j < w \<longrightarrow>
       out ! i ! j = (if list_all (\<lambda>c. c = 0) (result ! i ! j)
                      then GaussianBlur lib src_image ! i ! j else result ! i ! j)"
    using fill_holes_result [OF lib im r(2)] by blast
  have fo: "frame = out" using r(4) o(1) by simp
  have px: "\<And>i j. i < h \<Longrightarrow> j < w \<Longrightarrow>
       frame ! i ! j = (if list_all (\<lambda>c. c = 0) (result ! i ! j)
                        then GaussianBlur lib src_image ! i ! j else result ! i ! j)"
    using o(2) fo by simp
  have black: "\<forall>i j. i < h \<and> j < w \<and> list_all (\<lambda>c. c = 0) (frame ! i ! j) \<longrightarrow>
               list_all (\<lambda>c. c = 0) (GaussianBlur lib src_image ! i ! j)"
  proof (intro allI impI)
    fix i j assume a: "i < h \<and> j < w \<and> list_all (\<lambda>c. c = 0) (frame ! i ! j)"
    show "list_all (\<lambda>c. c = 0) (GaussianBlur lib src_image ! i ! j)"
    proof (cases "list_all (\<lambda>c. c = 0) (result ! i ! j)")
      case True
      from a have "i < h" "j < w" by simp_all
      then have "frame ! i ! j = GaussianBlur lib src_image ! i ! j"
        using px True by simp
      with a show ?thesis by simp
    next
      case False
      from a have "i < h" "j < w" by simp_all
      then have "frame ! i ! j = result ! i ! j" using px False by simp
      with a False show ?thesis by simp
    qed
  qed
  have keep: "\<forall>i j. i < h \<and> j < w \<and> \<not> list_all (\<lambda>c. c = 0) (result ! i ! j) \<longrightarrow>
               frame ! i ! j = result ! i ! j"
    using px by simp
  show ?thesis
    using r black keep by blast
qed

text \<open>
  Witness for C8: a \<open>1 \<times> 2\<close> image with a black pixel, rendered with the reference OpenCV
  functions (whose blur leaves the image as it is): the black pixel of the frame sits on
  a black pixel of the blurred image.
\<close>

theorem filled_frame_black_only_where_background_black_witness:
  "cv2_contract reference_cv2 \<and> rect 1 2 [[[0, 0, 0], [9, 9, 9 :: u8]]]
   \<and> (0::nat) < 1 \<and> (0::nat) < 2 \<and> rect 1 2 [[128, 128 :: u8]]
   \<and> generate_parallax_frame reference_cv2 reference_numpy [[[0, 0, 0], [9, 9, 9]]] [[128, 128]] 0 0 (1 / 10)
       = Inr [[[0, 0, 0], [9, 9, 9]]]
   \<and> list_all (\<lambda>c. c = 0) ([[[0, 0, 0], [9, 9, 9 :: u8]]] ! 0 ! 0)
   \<and> list_all (\<lambda>c. c = 0) (GaussianBlur reference_cv2 [[[0, 0, 0], [9, 9, 9]]] ! 0 ! 0)"
proof -
  have c: "cv2_contract reference_cv2" by (rule reference_cv2_contract)
  have r: "rect 1 2 [[[0, 0, 0], [9, 9, 9 :: u8]]]" by (simp add: rect_def)
  have d: "rect 1 2 [[128, 128 :: u8]]" by (simp add: rect_def)
  obtain result frame where f:
    "generate_parallax_frame reference_cv2 reference_numpy [[[0, 0, 0], [9, 9, 9]]] [[128, 128]] 0 0 (1 / 10)
       = Inr frame"
    "\<forall>i j. i < 1 \<and> j < 2 \<and> list_all (\<lambda>c. c = 0) (frame ! i ! j) \<longrightarrow>
       list_all (\<lambda>c. c = 0) (GaussianBlur reference_cv2 [[[0, 0, 0], [9, 9, 9]]] ! i ! j)"
    using filled_frame_black_only_where_background_black
      [OF c r _ _ d, of reference_numpy 0 0 "1 / 10"]
    by auto
  have fe: "frame = [[[0, 0, 0], [9, 9, 9]]]"
    using f(1) reference_frame_example by simp
  have z: "list_all (\<lambda>c. c = 0) (frame ! 0 ! 0)"
    by (simp add: fe)
  have "list_all (\<lambda>c. c = 0) (GaussianBlur reference_cv2 [[[0, 0, 0], [9, 9, 9]]] ! 0 ! 0)"
    using f(2) z by (metis zero_less_one zero_less_numeral)
  then show ?thesis
    using c r d reference_frame_example by simp
qed

end
